theory Spec2Isabelle
  imports Main
begin

section \<open>Python values and exceptions\<close>

text \<open>
  The runner works on values loaded from YAML test files and JSON reports. They are
  represented by \<open>pyval\<close>; a dict is an association list read with \<open>map_of\<close>
  (the first binding of a key is the dict's binding). Numbers are integers: floating
  point values are not represented.
\<close>

datatype pyval =
    PNone
  | PBool bool
  | PInt int
  | PStr string
  | PList "pyval list"
  | PDict "(string \<times> pyval) list"

text \<open>The exception classes the runner can meet; \<open>except\<close> clauses name them.\<close>

datatype py_exc =
    KeyError
  | TypeError
  | AttributeError
  | ValueError
  | OverflowError
  | JSONDecodeError
  | UnicodeDecodeError
  | FileNotFoundError
  | PermissionError
  | IsADirectoryError
  | ConnectionRefusedError
  | SocketTimeout
  | OtherOSError
  | CalledProcessError

text \<open>\<open>except OSError\<close>: the subclasses of OSError among the exceptions above.\<close>

fun is_OSError :: "py_exc \<Rightarrow> bool" where
  "is_OSError FileNotFoundError = True"
| "is_OSError PermissionError = True"
| "is_OSError IsADirectoryError = True"
| "is_OSError ConnectionRefusedError = True"
| "is_OSError SocketTimeout = True"
| "is_OSError OtherOSError = True"
| "is_OSError _ = False"

text \<open>Truth value of a Python value, as \<open>if x:\<close> and \<open>x and y\<close> test it.\<close>

fun py_truthy :: "pyval \<Rightarrow> bool" where
  "py_truthy PNone = False"
| "py_truthy (PBool b) = b"
| "py_truthy (PInt n) = (n \<noteq> 0)"
| "py_truthy (PStr s) = (s \<noteq> [])"
| "py_truthy (PList xs) = (xs \<noteq> [])"
| "py_truthy (PDict kvs) = (kvs \<noteq> [])"

text \<open>\<open>d.get(k, default)\<close> on a dict.\<close>

definition dict_get :: "(string \<times> pyval) list \<Rightarrow> string \<Rightarrow> pyval \<Rightarrow> pyval" where
  "dict_get kvs k dflt = (case map_of kvs k of None \<Rightarrow> dflt | Some v \<Rightarrow> v)"

text \<open>\<open>d[k]\<close> on a dict: a missing key raises KeyError.\<close>

definition dict_item :: "(string \<times> pyval) list \<Rightarrow> string \<Rightarrow> py_exc + pyval" where
  "dict_item kvs k = (case map_of kvs k of None \<Rightarrow> Inl KeyError | Some v \<Rightarrow> Inr v)"

text \<open>\<open>v[k]\<close> with a string key: only a dict can be subscripted by a string.\<close>

fun py_subscript :: "pyval \<Rightarrow> string \<Rightarrow> py_exc + pyval" where
  "py_subscript (PDict kvs) k = dict_item kvs k"
| "py_subscript v k = Inl TypeError"

section \<open>Test definitions\<close>

text \<open>
  A test is the dict \<open>load_tests\<close> builds. The keys read with \<open>t[...]\<close> (\<open>id\<close>,
  \<open>name\<close>, \<open>_category\<close>) are fields; \<open>platforms\<close> and \<open>verification\<close> are read
  with \<open>t.get\<close> and may be absent; \<open>prerequisites\<close> and \<open>setup\<close> default to the
  empty list, which is how an absent key is represented here.
\<close>

record test =
  tid :: string
  tname :: string
  category :: string
  platforms :: "string list option"
  prerequisites :: "pyval list"
  setup_steps :: "pyval list"
  verification :: "pyval option"

text \<open>\<open>t.get("platforms", ["all"])\<close>\<close>

definition platforms_of :: "test \<Rightarrow> string list" where
  "platforms_of t = (case platforms t of None \<Rightarrow> [''all''] | Some ps \<Rightarrow> ps)"

text \<open>\<open>t.get("verification", "manual")\<close>\<close>

definition verification_of :: "test \<Rightarrow> pyval" where
  "verification_of t = (case verification t of None \<Rightarrow> PStr ''manual'' | Some v \<Rightarrow> v)"

text \<open>An optional command-line string is used when it is given and not empty.\<close>

fun given :: "string option \<Rightarrow> bool" where
  "given None = False"
| "given (Some s) = (s \<noteq> [])"

section \<open>filter_tests\<close>

fun filter_tests :: "test list \<Rightarrow> string \<Rightarrow> string option \<Rightarrow> string option \<Rightarrow> test list" where
  "filter_tests [] current_platform cat test_id = []"
| "filter_tests (t # ts) current_platform cat test_id =
     (if current_platform \<notin> set (platforms_of t) \<and> ''all'' \<notin> set (platforms_of t)
        then filter_tests ts current_platform cat test_id
      else if given cat \<and> Some (category t) \<noteq> cat
        then filter_tests ts current_platform cat test_id
      else if given test_id \<and> Some (tid t) \<noteq> test_id
        then filter_tests ts current_platform cat test_id
      else t # filter_tests ts current_platform cat test_id)"

section \<open>String helpers\<close>

text \<open>
  A string is a sequence of characters with code points below 256 (ASCII and Latin-1);
  other characters are not represented.

  \<open>str.lower()\<close>: the upper-case letters are A to Z and the Latin-1 letters
  U+00C0 to U+00DE without the multiplication sign U+00D7; the lower-case letter of each
  is 32 code points on.
\<close>

definition upper_letters :: string where
  "upper_letters = ''ABCDEFGHIJKLMNOPQRSTUVWXYZ'' @
     [CHR 0xC0, CHR 0xC1, CHR 0xC2, CHR 0xC3, CHR 0xC4, CHR 0xC5, CHR 0xC6, CHR 0xC7, CHR 0xC8,
      CHR 0xC9, CHR 0xCA, CHR 0xCB, CHR 0xCC, CHR 0xCD, CHR 0xCE, CHR 0xCF, CHR 0xD0, CHR 0xD1,
      CHR 0xD2, CHR 0xD3, CHR 0xD4, CHR 0xD5, CHR 0xD6, CHR 0xD8, CHR 0xD9, CHR 0xDA, CHR 0xDB,
      CHR 0xDC, CHR 0xDD, CHR 0xDE]"

definition lower_letters :: string where
  "lower_letters = ''abcdefghijklmnopqrstuvwxyz'' @
     [CHR 0xE0, CHR 0xE1, CHR 0xE2, CHR 0xE3, CHR 0xE4, CHR 0xE5, CHR 0xE6, CHR 0xE7, CHR 0xE8,
      CHR 0xE9, CHR 0xEA, CHR 0xEB, CHR 0xEC, CHR 0xED, CHR 0xEE, CHR 0xEF, CHR 0xF0, CHR 0xF1,
      CHR 0xF2, CHR 0xF3, CHR 0xF4, CHR 0xF5, CHR 0xF6, CHR 0xF8, CHR 0xF9, CHR 0xFA, CHR 0xFB,
      CHR 0xFC, CHR 0xFD, CHR 0xFE]"

definition lower_char :: "char \<Rightarrow> char" where
  "lower_char c = (case map_of (zip upper_letters lower_letters) c of None \<Rightarrow> c | Some l \<Rightarrow> l)"

definition py_lower :: "string \<Rightarrow> string" where
  "py_lower s = map lower_char s"

text \<open>
  \<open>str.strip()\<close> removes the characters for which \<open>str.isspace\<close> holds at both
  ends: below 256 these are U+0009 to U+000D, U+001C to U+0020, U+0085 and U+00A0.
\<close>

definition is_space :: "char \<Rightarrow> bool" where
  "is_space c = (c \<in> {CHR '' '', CHR 0x09, CHR 0x0A, CHR 0x0B, CHR 0x0C, CHR 0x0D,
                       CHR 0x1C, CHR 0x1D, CHR 0x1E, CHR 0x1F, CHR 0x85, CHR 0xA0})"

definition py_strip :: "string \<Rightarrow> string" where
  "py_strip s = rev (dropWhile is_space (rev (dropWhile is_space s)))"

text \<open>\<open>sub in s\<close> on strings.\<close>

fun starts_with :: "string \<Rightarrow> string \<Rightarrow> bool" where
  "starts_with s [] = True"
| "starts_with [] (c # cs) = False"
| "starts_with (x # xs) (c # cs) = (x = c \<and> starts_with xs cs)"

fun contains :: "string \<Rightarrow> string \<Rightarrow> bool" where
  "contains [] sub = (sub = [])"
| "contains (x # xs) sub = (starts_with (x # xs) sub \<or> contains xs sub)"

text \<open>The keys of a dict, each once, in insertion order.\<close>

fun dict_keys :: "(string \<times> pyval) list \<Rightarrow> string list" where
  "dict_keys [] = []"
| "dict_keys ((k, v) # kvs) = k # filter (\<lambda>k'. k' \<noteq> k) (dict_keys kvs)"

text \<open>
  \<open>for x in v\<close>: the items a \<open>for\<close> loop visits. A list gives its elements, a string
  its characters, a dict its keys; None, a bool and an int are not iterable.
\<close>

fun py_iter :: "pyval \<Rightarrow> py_exc + pyval list" where
  "py_iter (PList xs) = Inr xs"
| "py_iter (PStr s) = Inr (map (\<lambda>c. PStr [c]) s)"
| "py_iter (PDict kvs) = Inr (map PStr (dict_keys kvs))"
| "py_iter _ = Inl TypeError"

section \<open>Paths and clock readings\<close>

text \<open>
  A path made by joining a directory and a file name (\<open>report_dir / filename\<close>,
  \<open>os.path.join(config_dir, "connections.json")\<close>) is kept as these two parts. How the
  platform writes the joined path as one string is not represented.
\<close>

record path =
  parent_dir :: string
  file_name :: string

text \<open>
  A reading of the system clock, by the UTC calendar fields \<open>datetime.now\<close> gives.
  \<open>time.time\<close> gives a reading as a floating-point number of seconds; floating point is
  not represented, and the whole seconds between two readings, \<open>int(t2 - t1)\<close>, are
  taken from the environment below. The runner reads the clock many times;
  \<open>clock w n\<close> is its \<open>n\<close>-th reading, and the number of readings so far is part of
  the state.
\<close>

record datetime =
  year :: nat
  month :: nat
  day :: nat
  hour :: nat
  minute :: nat
  second :: nat
  microsecond :: nat

record instant =
  utc :: datetime

section \<open>Verification engine\<close>

text \<open>
  What the engine reads from the machine it runs on. A subprocess either cannot be
  started (\<open>subprocess.run\<close> raises) or completes with a return code and its standard
  output. \<open>open_json\<close> is the outcome of \<open>open(path)\<close> followed by \<open>json.load\<close>
  (the loaded document is not used); \<open>connect\<close> is the outcome of
  \<open>socket.create_connection(("127.0.0.1", port), timeout=2)\<close>; for both, \<open>None\<close> means
  that nothing was raised. \<open>os.path.isfile\<close> never raises on a string; what it does
  on another value is left to \<open>isfile_nonstr\<close>.

  The other fields are what the infrastructure manager and the report store read:
  whether the compose file exists, the outcome of \<open>docker compose up\<close>, of the
  \<open>i\<close>-th connection attempt of \<open>_wait_for_port\<close>, of \<open>os.path.exists\<close> and
  \<open>os.remove\<close> on a path, of starting socat (the process handle, or what \<open>Popen\<close>
  raised), of \<open>os.path.exists\<close> on a link at the \<open>i\<close>-th poll, of creating and
  writing a file (\<open>None\<close>: written), of \<open>open\<close> and \<open>json.load\<close> on a report
  path, and the directory \<open>tempfile.mkdtemp\<close> creates.

  Two results of the Python library are taken from the environment as well:
  \<open>int_of_str s\<close> is what \<open>int(s)\<close> gives for a string, and \<open>whole_seconds t1 t2\<close>
  is \<open>int(t2 - t1)\<close> for two readings of the clock.
\<close>

datatype run_outcome = Raised py_exc | Completed int string

record environment =
  isfile :: "string \<Rightarrow> bool"
  isfile_nonstr :: "pyval \<Rightarrow> py_exc + bool"
  open_json :: "pyval \<Rightarrow> py_exc option"
  which :: "string \<Rightarrow> bool"
  run_jq :: "pyval \<Rightarrow> pyval \<Rightarrow> run_outcome"
  platform_system :: string
  run_tasklist :: "pyval \<Rightarrow> run_outcome"
  run_pgrep :: "pyval \<Rightarrow> run_outcome"
  connect :: "int \<Rightarrow> py_exc option"
  compose_file_exists :: bool
  run_compose_up :: run_outcome
  connect_at :: "nat \<Rightarrow> int \<Rightarrow> py_exc option"
  path_exists :: "string \<Rightarrow> bool"
  remove_path :: "string \<Rightarrow> py_exc option"
  spawn_socat :: "py_exc + nat"
  link_exists_at :: "nat \<Rightarrow> string \<Rightarrow> bool"
  write_error :: "path \<Rightarrow> py_exc option"
  read_json :: "string \<Rightarrow> py_exc + pyval"
  mkdtemp :: string
  int_of_str :: "string \<Rightarrow> py_exc + int"
  whole_seconds :: "instant \<Rightarrow> instant \<Rightarrow> int"

text \<open>\<open>int(x)\<close> on a loaded value.\<close>

fun py_int :: "environment \<Rightarrow> pyval \<Rightarrow> py_exc + int" where
  "py_int env (PInt n) = Inr n"
| "py_int env (PBool b) = Inr (if b then 1 else 0)"
| "py_int env (PStr s) = int_of_str env s"
| "py_int env _ = Inl TypeError"

text \<open>
  The description of a check: the \<open>description\<close> value of the specification when it
  has one, otherwise the default text built from the specification (kept here by what
  it is built from). \<open>Jq_unavailable d\<close> is \<open>d\<close> followed by
  \<open>" (jq not available - JSON valid)"\<close>.
\<close>

datatype descr =
    Given pyval
  | File_default pyval
  | Json_default pyval
  | Process_default pyval
  | Port_default int
  | Jq_unavailable descr

record check =
  description :: descr
  passed :: bool

definition describe :: "(string \<times> pyval) list \<Rightarrow> descr \<Rightarrow> descr" where
  "describe kvs dflt = (case map_of kvs ''description'' of None \<Rightarrow> dflt | Some d \<Rightarrow> Given d)"

text \<open>\<open>desc + " (jq not available ...)"\<close>: only a string can be extended.\<close>

fun add_jq_note :: "descr \<Rightarrow> py_exc + descr" where
  "add_jq_note (Given (PStr s)) = Inr (Jq_unavailable (Given (PStr s)))"
| "add_jq_note (Given v) = Inl TypeError"
| "add_jq_note d = Inr (Jq_unavailable d)"

definition os_path_isfile :: "environment \<Rightarrow> pyval \<Rightarrow> py_exc + bool" where
  "os_path_isfile env p = (case p of PStr s \<Rightarrow> Inr (isfile env s) | _ \<Rightarrow> isfile_nonstr env p)"

text \<open>The body of the \<open>try\<close> block of \<open>json_check\<close>.\<close>

definition json_check_try :: "environment \<Rightarrow> pyval \<Rightarrow> pyval \<Rightarrow> descr \<Rightarrow> py_exc + check" where
  "json_check_try env path jq_expr desc =
     (case open_json env path of
        Some e \<Rightarrow> Inl e
      | None \<Rightarrow>
          if which env ''jq'' \<and> py_truthy jq_expr then
            (case run_jq env jq_expr path of
               Raised e \<Rightarrow> Inl e
             | Completed rc out \<Rightarrow> Inr \<lparr>description = desc, passed = (rc = 0)\<rparr>)
          else
            (case add_jq_note desc of
               Inl e \<Rightarrow> Inl e
             | Inr d \<Rightarrow> Inr \<lparr>description = d, passed = True\<rparr>))"

text \<open>The body of the \<open>try\<close> block of \<open>process_running\<close>.\<close>

definition process_running_try :: "environment \<Rightarrow> pyval \<Rightarrow> descr \<Rightarrow> py_exc + check" where
  "process_running_try env name desc =
     (if platform_system env = ''Windows'' then
        (case run_tasklist env name of
           Raised e \<Rightarrow> Inl e
         | Completed rc out \<Rightarrow>
             (case name of
                PStr s \<Rightarrow> Inr \<lparr>description = desc, passed = contains (py_lower out) (py_lower s)\<rparr>
              | _ \<Rightarrow> Inl AttributeError))
      else
        (case run_pgrep env name of
           Raised e \<Rightarrow> Inl e
         | Completed rc out \<Rightarrow> Inr \<lparr>description = desc, passed = (rc = 0)\<rparr>))"

text \<open>\<open>checks.extend(...)\<close> over the results of a loop: the first exception ends it.\<close>

fun extend_all :: "(py_exc + check list) list \<Rightarrow> py_exc + check list" where
  "extend_all [] = Inr []"
| "extend_all (Inl e # rs) = Inl e"
| "extend_all (Inr cs # rs) = (case extend_all rs of Inl e \<Rightarrow> Inl e | Inr ds \<Rightarrow> Inr (cs @ ds))"

lemma size_map_of_less:
  "map_of kvs k = Some v \<Longrightarrow> size v < size (PDict kvs)"
  by (induction kvs) (auto split: if_splits)

lemma size_member_le:
  "x \<in> set (items :: pyval list) \<Longrightarrow> size x \<le> size_list size items"
  by (induction items) auto

lemma size_py_iter_le:
  "py_iter w = Inr items \<Longrightarrow> x \<in> set items \<Longrightarrow> size x \<le> size w"
  by (cases w) (auto dest: size_member_le)

lemma size_automated_less:
  assumes "py_iter (dict_get kvs k (PList [])) = Inr items" and "x \<in> set items"
  shows "size x < size (PDict kvs)"
proof (cases "map_of kvs k")
  case None
  with assms show ?thesis by (simp add: dict_get_def)
next
  case (Some w)
  with assms have "size x \<le> size w"
    using size_py_iter_le by (simp add: dict_get_def)
  with Some show ?thesis
    using size_map_of_less by fastforce
qed

text \<open>
  \<open>run_verification\<close>. A \<open>combined\<close> value is evaluated by recursion on its items;
  the interpreter's limit on the depth of recursion is not represented.
\<close>

function run_verification :: "environment \<Rightarrow> pyval \<Rightarrow> py_exc + check list" where
  "run_verification env v =
     (if v = PStr ''manual'' \<or> v = PNone then Inr []
      else case v of
        PDict kvs \<Rightarrow>
          (let vtype = dict_get kvs ''type'' (PStr '''') in
           if vtype = PStr ''file_exists'' then
             (case dict_item kvs ''path'' of
                Inl e \<Rightarrow> Inl e
              | Inr path \<Rightarrow>
                  (case os_path_isfile env path of
                     Inl e \<Rightarrow> Inl e
                   | Inr ok \<Rightarrow>
                       Inr [\<lparr>description = describe kvs (File_default path), passed = ok\<rparr>]))
           else if vtype = PStr ''json_check'' then
             (case dict_item kvs ''path'' of
                Inl e \<Rightarrow> Inl e
              | Inr path \<Rightarrow>
                  (let jq_expr = dict_get kvs ''jq'' (PStr '''');
                       desc = describe kvs (Json_default jq_expr)
                   in case json_check_try env path jq_expr desc of
                        Inr c \<Rightarrow> Inr [c]
                      | Inl e \<Rightarrow>
                          if e = JSONDecodeError \<or> e = FileNotFoundError
                          then Inr [\<lparr>description = desc, passed = False\<rparr>]
                          else Inl e))
           else if vtype = PStr ''process_running'' then
             (case dict_item kvs ''name'' of
                Inl e \<Rightarrow> Inl e
              | Inr name \<Rightarrow>
                  (let desc = describe kvs (Process_default name)
                   in case process_running_try env name desc of
                        Inr c \<Rightarrow> Inr [c]
                      | Inl e \<Rightarrow>
                          if e = FileNotFoundError
                          then Inr [\<lparr>description = desc, passed = False\<rparr>]
                          else Inl e))
           else if vtype = PStr ''port_listening'' then
             (case dict_item kvs ''port'' of
                Inl e \<Rightarrow> Inl e
              | Inr p \<Rightarrow>
                  (case py_int env p of
                     Inl e \<Rightarrow> Inl e
                   | Inr port \<Rightarrow>
                       (let desc = describe kvs (Port_default port)
                        in case connect env port of
                             None \<Rightarrow> Inr [\<lparr>description = desc, passed = True\<rparr>]
                           | Some e \<Rightarrow>
                               if is_OSError e
                               then Inr [\<lparr>description = desc, passed = False\<rparr>]
                               else Inl e)))
           else if vtype = PStr ''combined'' then
             (case py_iter (dict_get kvs ''automated'' (PList [])) of
                Inl e \<Rightarrow> Inl e
              | Inr items \<Rightarrow> extend_all (map (run_verification env) items))
           else Inr [])
      | _ \<Rightarrow> Inr [])"
  by pat_completeness auto
termination
proof (relation "measure (\<lambda>(env, v). size v)", goal_cases)
  case 1
  show ?case by simp
next
  case (2 env v kvs vtype items x)
  then show ?case
    using size_automated_less by simp
qed

declare run_verification.simps [simp del]

section \<open>Operator input and get_test_result\<close>

text \<open>
  What the operator does at a prompt: a line, or Ctrl+C. The end of the list is the
  end of standard input (Ctrl+D), where \<open>input\<close> raises EOFError at every call.
\<close>

datatype key_event = Line string | Interrupt

type_synonym stdin = "key_event list"

fun get_input :: "stdin \<Rightarrow> string \<times> stdin" where
  "get_input [] = (''q'', [])"
| "get_input (Interrupt # rest) = (''q'', rest)"
| "get_input (Line s # rest) = (py_lower (py_strip s), rest)"

text \<open>What \<open>get_test_result\<close> shows: one constructor for each prompt and message.\<close>

datatype event =
    Prompt_result
  | Prompt_failure_note
  | Prompt_enter_note
  | Note_recorded string
  | Show_checks "check list"
  | All_checks_passed
  | Some_checks_failed
  | Prompt_confirm
  | No_automated_checks
  | Manual_prompt pyval
  | Key_menu
  | Unknown_input

fun is_dict :: "pyval \<Rightarrow> bool" where
  "is_dict (PDict kvs) = True"
| "is_dict _ = False"

text \<open>\<open>isinstance(verification, dict) and verification.get("type") == "combined"\<close>\<close>

fun is_combined :: "pyval \<Rightarrow> bool" where
  "is_combined (PDict kvs) = (map_of kvs ''type'' = Some (PStr ''combined''))"
| "is_combined _ = False"

text \<open>\<open>verification.get("manual_prompt", "Manual check passed?")\<close>\<close>

fun manual_prompt_of :: "pyval \<Rightarrow> pyval" where
  "manual_prompt_of (PDict kvs) = dict_get kvs ''manual_prompt'' (PStr ''Manual check passed?'')"
| "manual_prompt_of v = PStr ''Manual check passed?''"

text \<open>
  The confirmation that follows a message: the answer is read at the \<open>"  > "\<close> prompt
  and compared with the keys that mean pass and those that mean fail (a fail asks for
  the optional failure note), then with \<open>s\<close> and \<open>q\<close>. Any other answer returns
  nothing, and control falls out of the \<open>if\<close> chain.
\<close>

definition confirm_block ::
  "string list \<Rightarrow> string list \<Rightarrow> string option \<Rightarrow> stdin \<Rightarrow> event list
     \<Rightarrow> (string \<times> string option) option \<times> stdin \<times> event list" where
  "confirm_block pass_keys fail_keys note ins out =
     (case get_input ins of (confirm, ins1) \<Rightarrow>
        if confirm \<in> set pass_keys then (Some (''passed'', note), ins1, out @ [Prompt_confirm])
        else if confirm \<in> set fail_keys then
          (case get_input ins1 of (note_text, ins2) \<Rightarrow>
             (Some (''failed'', if note_text \<noteq> [] then Some note_text else note), ins2,
              out @ [Prompt_confirm, Prompt_failure_note]))
        else if confirm = ''s'' then (Some (''skipped'', note), ins1, out @ [Prompt_confirm])
        else if confirm = ''q'' then (Some (''quit'', note), ins1, out @ [Prompt_confirm])
        else (None, ins1, out @ [Prompt_confirm]))"

lemma get_input_length:
  "get_input ins = (c, ins1) \<Longrightarrow> length ins1 \<le> length ins"
  by (cases ins rule: get_input.cases) auto

lemma get_input_consumes:
  "get_input ins = (c, ins1) \<Longrightarrow> c \<noteq> ''q'' \<Longrightarrow> length ins1 < length ins"
  by (cases ins rule: get_input.cases) auto

lemma confirm_block_length:
  "confirm_block ps fs note ins out = (r, ins1, out1) \<Longrightarrow> length ins1 \<le> length ins"
  by (auto simp: confirm_block_def split: prod.splits if_splits dest!: get_input_length)

lemma get_input_length_sym:
  "(c, ins1) = get_input ins \<Longrightarrow> length ins1 \<le> length ins"
  using get_input_length [of ins c ins1] by simp

lemma get_input_consumes_sym:
  "(c, ins1) = get_input ins \<Longrightarrow> c \<noteq> ''q'' \<Longrightarrow> length ins1 < length ins"
  using get_input_consumes [of ins c ins1] by simp

lemma confirm_block_length_sym:
  "(r, ins1, out1) = confirm_block ps fs nt ins out \<Longrightarrow> length ins1 \<le> length ins"
  using confirm_block_length [of ps fs nt ins out r ins1 out1] by simp

type_synonym verdict = "string \<times> string option \<times> stdin \<times> event list"

function verdict_loop ::
  "environment \<Rightarrow> test \<Rightarrow> string option \<Rightarrow> stdin \<Rightarrow> event list \<Rightarrow> py_exc + verdict" where
  "verdict_loop env t note ins out =
     (case get_input ins of (choice, ins1) \<Rightarrow>
        if choice = ''p'' then Inr (''passed'', note, ins1, out @ [Prompt_result])
        else if choice = ''f'' then
          (case get_input ins1 of (note_text, ins2) \<Rightarrow>
             Inr (''failed'', (if note_text \<noteq> [] then Some note_text else note), ins2,
                  out @ [Prompt_result, Prompt_failure_note]))
        else if choice = ''s'' then Inr (''skipped'', note, ins1, out @ [Prompt_result])
        else if choice = ''n'' then
          (case get_input ins1 of (note_text, ins2) \<Rightarrow>
             if note_text \<noteq> []
             then verdict_loop env t (Some note_text) ins2
                    (out @ [Prompt_result, Prompt_enter_note, Note_recorded note_text])
             else verdict_loop env t note ins2 (out @ [Prompt_result, Prompt_enter_note]))
        else if choice = ''q'' then Inr (''quit'', note, ins1, out @ [Prompt_result])
        else if choice = [] \<and> is_dict (verification_of t) then
          (case run_verification env (verification_of t) of
             Inl e \<Rightarrow> Inl e
           | Inr checks \<Rightarrow>
               if checks \<noteq> [] then
                 (case (if list_all passed checks
                        then confirm_block ['''', ''p''] [''f''] note ins1
                               (out @ [Prompt_result, Show_checks checks, All_checks_passed])
                        else confirm_block [''p''] ['''', ''f''] note ins1
                               (out @ [Prompt_result, Show_checks checks, Some_checks_failed]))
                  of (Some (status, note1), ins2, out2) \<Rightarrow> Inr (status, note1, ins2, out2)
                   | (None, ins2, out2) \<Rightarrow>
                       if is_combined (verification_of t) then
                         (case confirm_block ['''', ''p''] [''f''] note ins2
                                 (out2 @ [Manual_prompt (manual_prompt_of (verification_of t))])
                          of (Some (status, note1), ins3, out3) \<Rightarrow> Inr (status, note1, ins3, out3)
                           | (None, ins3, out3) \<Rightarrow> verdict_loop env t note ins3 out3)
                       else verdict_loop env t note ins2 out2)
               else verdict_loop env t note ins1 (out @ [Prompt_result, No_automated_checks]))
        else if choice = [] then verdict_loop env t note ins1 (out @ [Prompt_result, Key_menu])
        else verdict_loop env t note ins1 (out @ [Prompt_result, Unknown_input]))"
  by pat_completeness auto
termination
proof (relation "measure (\<lambda>(env, t, nt, ins, out). length ins)", goal_cases)
  case 1
  show ?case by simp
next
  case (2 env t nt ins out x y xa ya)
  from 2 have "length y < length ins"
    using get_input_consumes_sym [of x y ins] by simp
  moreover from 2 have "length ya \<le> length y"
    using get_input_length_sym [of xa ya y] by simp
  ultimately show ?case by simp
next
  case (3 env t nt ins out x y xa ya)
  from 3 have "length y < length ins"
    using get_input_consumes_sym [of x y ins] by simp
  moreover from 3 have "length ya \<le> length y"
    using get_input_length_sym [of xa ya y] by simp
  ultimately show ?case by simp
next
  case (4 env t nt ins out x y b xa ya xb yb xc yc xd yd)
  from 4 have "length y < length ins"
    using get_input_consumes_sym [of x y ins] by simp
  moreover from 4 have "length xb \<le> length y"
    by (auto split: if_splits dest: confirm_block_length_sym)
  moreover from 4 have "length xd \<le> length xb"
    by (auto dest: confirm_block_length_sym)
  ultimately show ?case by simp
next
  case (5 env t nt ins out x y b xa ya xb yb)
  from 5 have "length y < length ins"
    using get_input_consumes_sym [of x y ins] by simp
  moreover from 5 have "length xb \<le> length y"
    by (auto split: if_splits dest: confirm_block_length_sym)
  ultimately show ?case by simp
next
  case (6 env t nt ins out x y)
  then show ?case
    using get_input_consumes_sym [of x y ins] by simp
next
  case (7 env t nt ins out x y)
  then show ?case
    using get_input_consumes_sym [of x y ins] by simp
next
  case (8 env t nt ins out x y)
  then show ?case
    using get_input_consumes_sym [of x y ins] by simp
qed

declare verdict_loop.simps [simp del]

text \<open>\<open>get_test_result\<close>: the loop starts with no note and nothing shown.\<close>

definition get_test_result :: "environment \<Rightarrow> test \<Rightarrow> stdin \<Rightarrow> py_exc + verdict" where
  "get_test_result env t ins = verdict_loop env t None ins []"

section \<open>Infrastructure\<close>

record infrastructure =
  skip_infra :: bool
  keep_infra :: bool
  app_path :: "string option"
  docker_started :: bool
  socat_proc :: "nat option"
  app_proc :: "nat option"
  config_dir :: "string option"

text \<open>\<open>Infrastructure.__init__\<close>\<close>

definition new_infrastructure :: "bool \<Rightarrow> bool \<Rightarrow> string option \<Rightarrow> infrastructure" where
  "new_infrastructure skip keep app =
     \<lparr>skip_infra = skip, keep_infra = keep, app_path = app, docker_started = False,
      socat_proc = None, app_proc = None, config_dir = None\<rparr>"

text \<open>What a lifecycle call does to the outside: messages, commands, files, waits.\<close>

datatype effect =
    Printed string
  | Run_compose_up
  | Spawn_socat
  | Remove_path string
  | Sleep_ms nat
  | Write_file path pyval

text \<open>
  \<open>_wait_for_port(port, name, timeout)\<close>: attempt \<open>i\<close> of \<open>range(timeout)\<close>; \<open>n\<close>
  attempts are left. A refused or timed-out connection (any OSError) waits a second
  and tries again; another exception leaves the loop.
\<close>

fun wait_for_port :: "environment \<Rightarrow> int \<Rightarrow> nat \<Rightarrow> nat \<Rightarrow> (py_exc + bool) \<times> effect list" where
  "wait_for_port env port i 0 = (Inr False, [Printed ''WARNING: port not ready''])"
| "wait_for_port env port i (Suc n) =
     (case connect_at env i port of
        None \<Rightarrow> (Inr True, [Printed ''ready on port''])
      | Some e \<Rightarrow>
          if is_OSError e
          then (case wait_for_port env port (Suc i) n of (r, fx) \<Rightarrow> (r, Sleep_ms 1000 # fx))
          else (Inl e, []))"

text \<open>
  \<open>start_docker\<close>. \<open>subprocess.run(..., check=True)\<close> raises CalledProcessError on a
  non-zero return code; the \<open>except\<close> clause catches that class only.
\<close>

definition start_docker_try ::
  "environment \<Rightarrow> infrastructure \<Rightarrow> (py_exc + bool) \<times> infrastructure \<times> effect list" where
  "start_docker_try env s =
     (case run_compose_up env of
        Raised e \<Rightarrow> (Inl e, s, [Run_compose_up])
      | Completed rc out \<Rightarrow>
          if rc \<noteq> 0 then (Inl CalledProcessError, s, [Run_compose_up])
          else (case wait_for_port env 2201 0 30 of
                  (Inl e, fx) \<Rightarrow> (Inl e, s\<lparr>docker_started := True\<rparr>, Run_compose_up # fx)
                | (Inr ready, fx) \<Rightarrow> (Inr True, s\<lparr>docker_started := True\<rparr>, Run_compose_up # fx)))"

definition start_docker ::
  "environment \<Rightarrow> infrastructure \<Rightarrow> (py_exc + bool) \<times> infrastructure \<times> effect list" where
  "start_docker env s =
     (if skip_infra s \<or> docker_started s then (Inr (docker_started s), s, [])
      else if \<not> compose_file_exists env
        then (Inr False, s, [Printed ''WARNING: docker-compose.yml not found''])
      else (case start_docker_try env s of
              (Inl e, s1, fx) \<Rightarrow>
                if e = CalledProcessError
                then (Inr False, s1, Printed ''Starting Docker test containers...'' # fx
                                       @ [Printed ''ERROR: Failed to start Docker containers''])
                else (Inl e, s1, Printed ''Starting Docker test containers...'' # fx)
            | (Inr b, s1, fx) \<Rightarrow> (Inr b, s1, Printed ''Starting Docker test containers...'' # fx)))"

definition pty_a :: string where "pty_a = ''/tmp/termihub-serial-a''"
definition pty_b :: string where "pty_b = ''/tmp/termihub-serial-b''"

text \<open>\<open>for p in (pty_a, pty_b): if os.path.exists(p): os.remove(p)\<close>\<close>

fun remove_stale :: "environment \<Rightarrow> string list \<Rightarrow> py_exc option \<times> effect list" where
  "remove_stale env [] = (None, [])"
| "remove_stale env (p # ps) =
     (if path_exists env p then
        (case remove_path env p of
           Some e \<Rightarrow> (Some e, [])
         | None \<Rightarrow> (case remove_stale env ps of (r, fx) \<Rightarrow> (r, Remove_path p # fx)))
      else remove_stale env ps)"

text \<open>The wait for the two links: poll \<open>i\<close> of \<open>range(20)\<close>, \<open>n\<close> polls left.\<close>

fun poll_links :: "environment \<Rightarrow> nat \<Rightarrow> nat \<Rightarrow> bool \<times> effect list" where
  "poll_links env i 0 = (False, [Printed ''WARNING: Virtual serial ports did not appear''])"
| "poll_links env i (Suc n) =
     (if link_exists_at env i pty_a \<and> link_exists_at env i pty_b then (True, [])
      else (case poll_links env (Suc i) n of (r, fx) \<Rightarrow> (r, Sleep_ms 500 # fx)))"

definition check_serial :: "environment \<Rightarrow> bool" where
  "check_serial env = which env ''socat''"

definition start_serial ::
  "environment \<Rightarrow> infrastructure \<Rightarrow> (py_exc + bool) \<times> infrastructure \<times> effect list" where
  "start_serial env s =
     (if socat_proc s \<noteq> None then (Inr True, s, [])
      else if \<not> check_serial env then (Inr False, s, [])
      else (case remove_stale env [pty_a, pty_b] of
              (Some e, fx) \<Rightarrow> (Inl e, s, fx)
            | (None, fx) \<Rightarrow>
                (case spawn_socat env of
                   Inl e \<Rightarrow> if e = FileNotFoundError then (Inr False, s, fx) else (Inl e, s, fx)
                 | Inr h \<Rightarrow>
                     (case poll_links env 0 20 of
                        (r, fx1) \<Rightarrow> (Inr r, s\<lparr>socat_proc := Some h\<rparr>, fx @ Spawn_socat # fx1)))))"

text \<open>
  The prerequisites of a test, in order: a dict with a true \<open>docker\<close> value starts the
  containers (unless infrastructure is skipped or they are started), one with a true
  \<open>serial\<close> value starts the serial bridge. The value the start returns is not used;
  an exception it raises leaves the loop.
\<close>

fun resolve_prerequisites ::
  "environment \<Rightarrow> pyval list \<Rightarrow> infrastructure \<Rightarrow> py_exc option \<times> infrastructure \<times> effect list" where
  "resolve_prerequisites env [] s = (None, s, [])"
| "resolve_prerequisites env (PDict kvs # ps) s =
     (case (if py_truthy (dict_get kvs ''docker'' PNone) \<and> \<not> skip_infra s \<and> \<not> docker_started s
            then start_docker env s else (Inr True, s, []))
      of (Inl e, s1, fx1) \<Rightarrow> (Some e, s1, fx1)
       | (Inr b1, s1, fx1) \<Rightarrow>
           (case (if py_truthy (dict_get kvs ''serial'' PNone)
                  then start_serial env s1 else (Inr True, s1, []))
            of (Inl e, s2, fx2) \<Rightarrow> (Some e, s2, fx1 @ fx2)
             | (Inr b2, s2, fx2) \<Rightarrow>
                 (case resolve_prerequisites env ps s2 of
                    (r, s3, fx3) \<Rightarrow> (r, s3, fx1 @ fx2 @ fx3))))"
| "resolve_prerequisites env (p # ps) s = resolve_prerequisites env ps s"

section \<open>Clock, results and reports\<close>

text \<open>
  The \<open>verification_type\<close> of a result: a value taken from the test (\<open>Type_value\<close>), or
  the text \<open>str(...)\<close> makes of the whole verification value (\<open>Str_of\<close>).
\<close>

datatype vtype = Type_value pyval | Str_of pyval

record result =
  r_id :: string
  r_name :: string
  r_category :: string
  r_status :: string
  r_timestamp :: datetime
  r_duration_seconds :: int
  r_note :: "string option"
  r_verification_type :: vtype

record report =
  session_started :: datetime
  session_completed :: datetime
  session_duration :: int
  env_platform :: string
  env_arch :: string
  env_os_version :: string
  docker_available :: bool
  serial_available :: bool
  summary_total :: nat
  summary_passed :: nat
  summary_failed :: nat
  summary_skipped :: nat
  summary_not_run :: nat
  report_results :: "result list"

definition count_status :: "string \<Rightarrow> result list \<Rightarrow> nat" where
  "count_status st rs = length (filter (\<lambda>r. r_status r = st) rs)"

text \<open>\<open>build_report\<close>; \<open>now\<close> is the clock reading it takes.\<close>

definition build_report ::
  "environment \<Rightarrow> instant \<Rightarrow> result list \<Rightarrow> string \<Rightarrow> string \<Rightarrow> string \<Rightarrow> instant \<Rightarrow> report" where
  "build_report env now rs plat arch os_version start_time =
     \<lparr>session_started = utc start_time,
      session_completed = utc now,
      session_duration = whole_seconds env start_time now,
      env_platform = plat, env_arch = arch, env_os_version = os_version,
      docker_available = which env ''docker'',
      serial_available = which env ''socat'',
      summary_total = length rs,
      summary_passed = count_status ''passed'' rs,
      summary_failed = count_status ''failed'' rs,
      summary_skipped = count_status ''skipped'' rs,
      summary_not_run = count_status ''not_run'' rs,
      report_results = rs\<rparr>"

text \<open>Decimal digits, zero padded, as \<open>strftime\<close> writes a calendar field.\<close>

definition digit_char :: "nat \<Rightarrow> char" where
  "digit_char n = ''0123456789'' ! (n mod 10)"

definition pad2 :: "nat \<Rightarrow> string" where
  "pad2 n = [digit_char (n div 10), digit_char n]"

definition pad4 :: "nat \<Rightarrow> string" where
  "pad4 n = pad2 (n div 100) @ pad2 (n mod 100)"

text \<open>\<open>strftime("%Y-%m-%dT%H%M%S")\<close>\<close>

definition strftime_stamp :: "datetime \<Rightarrow> string" where
  "strftime_stamp d =
     pad4 (year d) @ ''-'' @ pad2 (month d) @ ''-'' @ pad2 (day d) @ ''T''
       @ pad2 (hour d) @ pad2 (minute d) @ pad2 (second d)"

text \<open>\<open>f"manual-{ts}-{plat}-{arch}.json"\<close>, with \<open>plat\<close> and \<open>arch\<close> read from the report.\<close>

definition report_filename :: "datetime \<Rightarrow> report \<Rightarrow> string" where
  "report_filename now rep =
     ''manual-'' @ strftime_stamp now @ ''-'' @ env_platform rep @ ''-'' @ env_arch rep @ ''.json''"

text \<open>
  The files written, latest first: \<open>map_of\<close> reads what a path holds.
  \<open>save_report\<close> takes the clock reading it makes; creating the directory or writing
  the file can raise. It returns the path it wrote to.
\<close>

type_synonym files = "(path \<times> report) list"

definition save_report ::
  "environment \<Rightarrow> instant \<Rightarrow> files \<Rightarrow> report \<Rightarrow> string \<Rightarrow> py_exc + (path \<times> files)" where
  "save_report env now fs rep report_dir =
     (let filename = report_filename (utc now) rep;
          path = \<lparr>parent_dir = report_dir, file_name = filename\<rparr>
      in case write_error env path of
           Some e \<Rightarrow> Inl e
         | None \<Rightarrow> Inr (path, (path, rep) # fs))"

section \<open>The session\<close>

text \<open>
  The outside of a session: the machine as it is while the test at an index is handled
  (the index past the last test: after the loop), and the clock.
\<close>

record world =
  machine :: "nat \<Rightarrow> environment"
  clock :: "nat \<Rightarrow> instant"

record run_state =
  results :: "result list"
  infra :: infrastructure
  keys :: stdin
  saved :: files
  ticks :: nat

text \<open>
  The result records \<open>main\<close> builds: for a test completed in the resumed session, for
  the test at which the operator quits, for a test with a verdict, and for a test left
  after a quit.
\<close>

definition resumed_result :: "test \<Rightarrow> instant \<Rightarrow> result" where
  "resumed_result t now =
     \<lparr>r_id = tid t, r_name = tname t, r_category = category t, r_status = ''skipped'',
      r_timestamp = utc now, r_duration_seconds = 0,
      r_note = Some ''Skipped (completed in previous session)'',
      r_verification_type = Type_value (PStr ''resumed'')\<rparr>"

definition quit_result :: "test \<Rightarrow> instant \<Rightarrow> int \<Rightarrow> string option \<Rightarrow> result" where
  "quit_result t now secs nt =
     \<lparr>r_id = tid t, r_name = tname t, r_category = category t, r_status = ''not_run'',
      r_timestamp = utc now, r_duration_seconds = secs, r_note = nt,
      r_verification_type = Str_of (verification_of t)\<rparr>"

definition vtype_of :: "test \<Rightarrow> vtype" where
  "vtype_of t = (case verification_of t of
                   PDict kvs \<Rightarrow> Type_value (dict_get kvs ''type'' (PStr ''automated''))
                 | _ \<Rightarrow> Type_value (PStr ''manual''))"

definition verdict_result :: "test \<Rightarrow> string \<Rightarrow> instant \<Rightarrow> int \<Rightarrow> string option \<Rightarrow> result" where
  "verdict_result t status now secs nt =
     \<lparr>r_id = tid t, r_name = tname t, r_category = category t, r_status = status,
      r_timestamp = utc now, r_duration_seconds = secs, r_note = nt,
      r_verification_type = vtype_of t\<rparr>"

definition not_run_result :: "test \<Rightarrow> instant \<Rightarrow> result" where
  "not_run_result t now =
     \<lparr>r_id = tid t, r_name = tname t, r_category = category t, r_status = ''not_run'',
      r_timestamp = utc now, r_duration_seconds = 0, r_note = None,
      r_verification_type = Str_of (verification_of t)\<rparr>"

text \<open>
  \<open>print_test_card\<close>, by what it can raise (what it prints is not represented): for
  a setup step that is a dict with \<open>create_connection\<close>, the card reads the \<open>name\<close>
  of that value.
\<close>

fun card_steps :: "pyval list \<Rightarrow> py_exc option" where
  "card_steps [] = None"
| "card_steps (PDict kvs # steps) =
     (case map_of kvs ''create_connection'' of
        None \<Rightarrow> card_steps steps
      | Some conn \<Rightarrow>
          (case py_subscript conn ''name'' of
             Inl e \<Rightarrow> Some e
           | Inr name \<Rightarrow> card_steps steps))"
| "card_steps (step # steps) = card_steps steps"

definition print_test_card :: "test \<Rightarrow> py_exc option" where
  "print_test_card t = card_steps (setup_steps t)"

text \<open>The constant arguments of the loop.\<close>

record session_args =
  arg_platform :: string
  arg_arch :: string
  arg_os_version :: string
  arg_report_dir :: string
  completed_ids :: "pyval set"
  start_time :: instant

text \<open>
  The main test loop, \<open>for i, test in enumerate(filtered, 1)\<close>, from the test at index
  \<open>j\<close> (counted from 0) on. It returns the state and \<open>quit_requested\<close>, or the
  exception that left it. The clock is read for \<open>test_start\<close>, for the timestamp and
  for the duration of a result, once in \<open>build_report\<close> and once in \<open>save_report\<close>.
  Of the test card only what it can raise is kept.
\<close>

fun run_tests ::
  "world \<Rightarrow> session_args \<Rightarrow> nat \<Rightarrow> test list \<Rightarrow> run_state \<Rightarrow> py_exc + (run_state \<times> bool)" where
  "run_tests w a j [] st = Inr (st, False)"
| "run_tests w a j (t # ts) st =
     (if PStr (tid t) \<in> completed_ids a then
        run_tests w a (Suc j) ts
          (st\<lparr>results := results st @ [resumed_result t (clock w (ticks st))],
              ticks := Suc (ticks st)\<rparr>)
      else
        (case resolve_prerequisites (machine w j) (prerequisites t) (infra st) of
           (Some e, s1, fx) \<Rightarrow> Inl e
         | (None, s1, fx) \<Rightarrow>
             (let test_start = clock w (ticks st) in
              case print_test_card t of
                Some e \<Rightarrow> Inl e
              | None \<Rightarrow>
              case get_test_result (machine w j) t (keys st) of
                Inl e \<Rightarrow> Inl e
              | Inr (status, nt, keys1, shown) \<Rightarrow>
                  (let stamp = clock w (ticks st + 1);
                       secs = whole_seconds (machine w j) test_start (clock w (ticks st + 2))
                   in if status = ''quit'' then
                        Inr (st\<lparr>results := results st @ [quit_result t stamp secs nt],
                                infra := s1, keys := keys1, ticks := ticks st + 3\<rparr>, True)
                      else
                        (let rs = results st @ [verdict_result t status stamp secs nt];
                             partial_report =
                               build_report (machine w j) (clock w (ticks st + 3)) rs
                                 (arg_platform a) (arg_arch a) (arg_os_version a) (start_time a)
                         in case save_report (machine w j) (clock w (ticks st + 4)) (saved st)
                                   partial_report (arg_report_dir a) of
                              Inl e \<Rightarrow> Inl e
                            | Inr (path, fs) \<Rightarrow>
                                run_tests w a (Suc j) ts
                                  (st\<lparr>results := rs, infra := s1, keys := keys1, saved := fs,
                                      ticks := ticks st + 5\<rparr>))))))"

text \<open>
  \<open>next((j for j, t in enumerate(filtered) if t["id"] not in {ids of results}),
  len(filtered))\<close>
\<close>

definition remaining_idx :: "test list \<Rightarrow> result list \<Rightarrow> nat" where
  "remaining_idx filtered rs = length (takeWhile (\<lambda>t. tid t \<in> set (map r_id rs)) filtered)"

text \<open>
  \<open>for t in filtered[remaining_idx:]\<close>: a test whose id has no result yet gets a
  \<open>not_run\<close> result; the ids are taken from the results as they grow.
\<close>

fun mark_remaining :: "world \<Rightarrow> test list \<Rightarrow> result list \<Rightarrow> nat \<Rightarrow> result list \<times> nat" where
  "mark_remaining w [] rs n = (rs, n)"
| "mark_remaining w (t # ts) rs n =
     (if tid t \<notin> set (map r_id rs)
      then mark_remaining w ts (rs @ [not_run_result t (clock w n)]) (Suc n)
      else mark_remaining w ts rs n)"

text \<open>
  The part of \<open>main\<close> from the main test loop to its return value: the loop, the
  \<open>not_run\<close> results after a quit, the final report, and the exit code. It returns the
  final results, the path of the final report, the files written and the exit code.
\<close>

definition run_session ::
  "world \<Rightarrow> session_args \<Rightarrow> test list \<Rightarrow> run_state
     \<Rightarrow> py_exc + (result list \<times> path \<times> files \<times> int)" where
  "run_session w a filtered st0 =
     (case run_tests w a 0 filtered st0 of
        Inl e \<Rightarrow> Inl e
      | Inr (st, quit_requested) \<Rightarrow>
          (case (if quit_requested
                 then mark_remaining w (drop (remaining_idx filtered (results st)) filtered)
                        (results st) (ticks st)
                 else (results st, ticks st)) of
             (rs, n) \<Rightarrow>
               (let final_env = machine w (length filtered);
                    rep = build_report final_env (clock w n) rs
                            (arg_platform a) (arg_arch a) (arg_os_version a) (start_time a)
                in case save_report final_env (clock w (n + 1)) (saved st) rep (arg_report_dir a) of
                     Inl e \<Rightarrow> Inl e
                   | Inr (report_path, fs) \<Rightarrow>
                       Inr (rs, report_path, fs,
                            if count_status ''failed'' rs > 0 then 1 else 0))))"

section \<open>Resume support\<close>

text \<open>
  A value as a member of a Python set: a list and a dict are unhashable (\<open>None\<close>);
  \<open>True\<close> and \<open>False\<close> are the same members as \<open>1\<close> and \<open>0\<close>. A set of loaded
  values is the set of these keys.
\<close>

fun py_key :: "pyval \<Rightarrow> pyval option" where
  "py_key (PList xs) = None"
| "py_key (PDict kvs) = None"
| "py_key (PBool b) = Some (PInt (if b then 1 else 0))"
| "py_key v = Some v"

definition completed_statuses :: "pyval set" where
  "completed_statuses = {PStr ''passed'', PStr ''failed'', PStr ''skipped''}"

text \<open>
  The loop of \<open>load_resume\<close> over the entries of \<open>results\<close>: \<open>r.get("status")\<close> needs
  a dict, \<open>r["id"]\<close> needs the key, \<open>completed.add\<close> needs a hashable id.
\<close>

fun collect_completed :: "pyval list \<Rightarrow> pyval set \<Rightarrow> py_exc + pyval set" where
  "collect_completed [] completed = Inr completed"
| "collect_completed (PDict fs # rs) completed =
     (if dict_get fs ''status'' PNone \<in> completed_statuses then
        (case dict_item fs ''id'' of
           Inl e \<Rightarrow> Inl e
         | Inr i \<Rightarrow>
             (case py_key i of
                None \<Rightarrow> Inl TypeError
              | Some k \<Rightarrow> collect_completed rs (insert k completed)))
      else collect_completed rs completed)"
| "collect_completed (r # rs) completed = Inl AttributeError"

definition load_resume :: "environment \<Rightarrow> string \<Rightarrow> py_exc + pyval set" where
  "load_resume env resume_path =
     (case read_json env resume_path of
        Inl e \<Rightarrow> Inl e
      | Inr rep \<Rightarrow>
          (case rep of
             PDict kvs \<Rightarrow>
               (case py_iter (dict_get kvs ''results'' (PList [])) of
                  Inl e \<Rightarrow> Inl e
                | Inr rs \<Rightarrow> collect_completed rs {})
           | _ \<Rightarrow> Inl AttributeError))"

text \<open>
  The resume step of \<open>main\<close>: \<open>--resume\<close> given and not empty loads the ids; a
  FileNotFoundError, JSONDecodeError or KeyError prints the warning and leaves the set
  empty; any other exception leaves \<open>main\<close>.
\<close>

definition resume_step :: "environment \<Rightarrow> string option \<Rightarrow> (py_exc + pyval set) \<times> effect list" where
  "resume_step env resume =
     (case resume of
        None \<Rightarrow> (Inr {}, [])
      | Some path \<Rightarrow>
          if path = [] then (Inr {}, [])
          else (case load_resume env path of
                  Inr ids \<Rightarrow> (Inr ids, [Printed ''Resuming session''])
                | Inl e \<Rightarrow>
                    if e = FileNotFoundError \<or> e = JSONDecodeError \<or> e = KeyError
                    then (Inr {}, [Printed ''WARNING: Could not load resume file''])
                    else (Inl e, [])))"

section \<open>generate_connections\<close>

text \<open>\<open>conn_def.get("config", {})\<close>, once \<open>conn_def["name"]\<close> has shown a dict.\<close>

fun config_of :: "pyval \<Rightarrow> pyval" where
  "config_of (PDict kvs) = dict_get kvs ''config'' (PDict [])"
| "config_of v = PDict []"

definition connection_entry :: "pyval \<Rightarrow> pyval \<Rightarrow> pyval \<Rightarrow> pyval" where
  "connection_entry name ty cfg =
     PDict [(''type'', PStr ''connection''), (''name'', name),
            (''config'', PDict [(''type'', ty), (''config'', cfg)])]"

text \<open>
  The inner loop over the setup steps of one test; the state is \<open>seen_names\<close> (as
  keys) and \<open>connections\<close>.
\<close>

fun scan_steps ::
  "pyval list \<Rightarrow> pyval list \<times> pyval list \<Rightarrow> py_exc + (pyval list \<times> pyval list)" where
  "scan_steps [] st = Inr st"
| "scan_steps (PDict kvs # steps) (seen_names, connections) =
     (case map_of kvs ''create_connection'' of
        None \<Rightarrow> scan_steps steps (seen_names, connections)
      | Some conn_def \<Rightarrow>
          (case py_subscript conn_def ''name'' of
             Inl e \<Rightarrow> Inl e
           | Inr name \<Rightarrow>
               (case py_key name of
                  None \<Rightarrow> Inl TypeError
                | Some k \<Rightarrow>
                    if k \<in> set seen_names then scan_steps steps (seen_names, connections)
                    else (case py_subscript conn_def ''type'' of
                            Inl e \<Rightarrow> Inl e
                          | Inr ty \<Rightarrow>
                              scan_steps steps
                                (k # seen_names,
                                 connections @ [connection_entry name ty (config_of conn_def)])))))"
| "scan_steps (step # steps) st = scan_steps steps st"

fun scan_tests ::
  "test list \<Rightarrow> pyval list \<times> pyval list \<Rightarrow> py_exc + (pyval list \<times> pyval list)" where
  "scan_tests [] st = Inr st"
| "scan_tests (t # ts) st =
     (case scan_steps (setup_steps t) st of
        Inl e \<Rightarrow> Inl e
      | Inr st1 \<Rightarrow> scan_tests ts st1)"

definition connection_store :: "pyval list \<Rightarrow> pyval" where
  "connection_store connections =
     PDict [(''version'', PStr ''2''),
            (''children'',
               if connections \<noteq> []
               then PList [PDict [(''type'', PStr ''folder''),
                                  (''name'', PStr ''Manual Test Connections''),
                                  (''isExpanded'', PBool True),
                                  (''children'', PList connections)]]
               else PList []),
            (''agents'', PList [])]"

text \<open>
  \<open>generate_connections\<close>: the directory is recorded in the state before the file is
  written.
\<close>

definition generate_connections ::
  "environment \<Rightarrow> test list \<Rightarrow> infrastructure \<Rightarrow> (py_exc + string) \<times> infrastructure \<times> effect list" where
  "generate_connections env tests s =
     (case scan_tests tests ([], []) of
        Inl e \<Rightarrow> (Inl e, s, [])
      | Inr (seen_names, connections) \<Rightarrow>
          (let dir = mkdtemp env;
               config_file = \<lparr>parent_dir = dir, file_name = ''connections.json''\<rparr>;
               s1 = s\<lparr>config_dir := Some dir\<rparr>
           in case write_error env config_file of
                Some e \<Rightarrow> (Inl e, s1, [])
              | None \<Rightarrow>
                  (Inr dir, s1, [Write_file config_file (connection_store connections)])))"

section \<open>Example inputs\<close>

definition known_types :: "pyval set" where
  "known_types = PStr ` {''file_exists'', ''json_check'', ''process_running'',
                         ''port_listening'', ''combined''}"

text \<open>
  A machine on which every file exists, no tool is installed and no port listens. Its
  clock readings are all within one minute.
\<close>

definition bare_env :: environment where
  "bare_env = \<lparr>isfile = (\<lambda>_. True), isfile_nonstr = (\<lambda>_. Inl TypeError),
     open_json = (\<lambda>_. None), which = (\<lambda>_. False), run_jq = (\<lambda>_ _. Raised FileNotFoundError),
     platform_system = ''Linux'', run_tasklist = (\<lambda>_. Raised FileNotFoundError),
     run_pgrep = (\<lambda>_. Raised FileNotFoundError), connect = (\<lambda>_. Some ConnectionRefusedError),
     compose_file_exists = False, run_compose_up = Raised FileNotFoundError,
     connect_at = (\<lambda>_ _. Some ConnectionRefusedError), path_exists = (\<lambda>_. False),
     remove_path = (\<lambda>_. None), spawn_socat = Inl FileNotFoundError,
     link_exists_at = (\<lambda>_ _. False), write_error = (\<lambda>_. None),
     read_json = (\<lambda>_. Inl FileNotFoundError), mkdtemp = ''/tmp/termihub-manual-test-0'',
     int_of_str = (\<lambda>_. Inl ValueError),
     whole_seconds = (\<lambda>t1 t2. int (second (utc t2)) - int (second (utc t1)))\<rparr>"

definition combined_spec :: pyval where
  "combined_spec = PDict [(''type'', PStr ''combined''),
     (''automated'', PList [PDict [(''type'', PStr ''file_exists''), (''path'', PStr ''/tmp/out.txt'')]]),
     (''manual_prompt'', PStr ''Does the tab title show the host?'')]"

definition combined_test :: test where
  "combined_test = \<lparr>tid = ''MT-1'', tname = ''Combined check'', category = ''ssh'',
     platforms = None, prerequisites = [], setup_steps = [], verification = Some combined_spec\<rparr>"

text \<open>An infrastructure whose containers and serial bridge are running.\<close>

definition running_infra :: infrastructure where
  "running_infra = \<lparr>skip_infra = False, keep_infra = False, app_path = None,
     docker_started = True, socat_proc = Some 4711, app_proc = None, config_dir = None\<rparr>"

text \<open>
  Calendar fields that \<open>strftime\<close> writes with the widths of its format: a year of
  four digits, the other fields of at most two.
\<close>

definition valid_datetime :: "datetime \<Rightarrow> bool" where
  "valid_datetime d \<longleftrightarrow> 1000 \<le> year d \<and> year d < 10000 \<and> month d < 100 \<and> day d < 100
     \<and> hour d < 100 \<and> minute d < 100 \<and> second d < 100"

text \<open>Two clock readings in the same second.\<close>

definition same_second :: "datetime \<Rightarrow> datetime \<Rightarrow> bool" where
  "same_second d e \<longleftrightarrow> year d = year e \<and> month d = month e \<and> day d = day e \<and> hour d = hour e
     \<and> minute d = minute e \<and> second d = second e"

text \<open>A clock reading \<open>n\<close> seconds after 2026-11-04 10:30:00 UTC.\<close>

definition at_second :: "nat \<Rightarrow> instant" where
  "at_second n = \<lparr>utc = \<lparr>year = 2026, month = 11, day = 4, hour = 10, minute = 30,
                          second = n, microsecond = 0\<rparr>\<rparr>"

definition linux_report :: report where
  "linux_report = build_report bare_env (at_second 0) [] ''linux'' ''x86_64'' ''Linux 6'' (at_second 0)"

text \<open>The four words \<open>get_test_result\<close> returns as a status.\<close>

definition verdict_words :: "string set" where
  "verdict_words = {''passed'', ''failed'', ''skipped'', ''quit''}"

text \<open>The statuses of a resolved test.\<close>

definition done_words :: "string set" where
  "done_words = {''passed'', ''failed'', ''skipped''}"

text \<open>
  What the main loop records for one test: \<open>r\<close> is the result of test \<open>t\<close>, handled
  on machine state \<open>j\<close> with the operator input \<open>ins\<close>, of which \<open>ins1\<close> is left.
  A test completed in the resumed session gets the synthesized skipped result and reads
  no input; any other test gets the status and the note \<open>get_test_result\<close> returned,
  with \<open>not_run\<close> for the status when the operator quit.
\<close>

definition step_ok ::
  "world \<Rightarrow> session_args \<Rightarrow> nat \<Rightarrow> test \<Rightarrow> stdin \<Rightarrow> stdin \<Rightarrow> bool \<Rightarrow> result \<Rightarrow> bool" where
  "step_ok w a j t ins ins1 quit r \<longleftrightarrow>
     r_id r = tid t \<and> r_name r = tname t \<and> r_category r = category t
     \<and> (if PStr (tid t) \<in> completed_ids a then
          \<not> quit \<and> ins1 = ins \<and> r_status r = ''skipped'' \<and> r_duration_seconds r = 0
          \<and> r_note r = Some ''Skipped (completed in previous session)''
          \<and> r_verification_type r = Type_value (PStr ''resumed'')
        else
          (\<exists>status nt shown.
              get_test_result (machine w j) t ins = Inr (status, nt, ins1, shown)
            \<and> r_note r = nt
            \<and> (if quit then status = ''quit'' \<and> r_status r = ''not_run''
                else status \<in> done_words \<and> r_status r = status)))"

text \<open>A session of manual tests on a machine whose clock advances a second at each reading.\<close>

definition manual_test :: "string \<Rightarrow> test" where
  "manual_test i = \<lparr>tid = i, tname = ''Test '' @ i, category = ''local'', platforms = None,
     prerequisites = [], setup_steps = [], verification = None\<rparr>"

definition tick_world :: world where
  "tick_world = \<lparr>machine = (\<lambda>_. bare_env), clock = at_second\<rparr>"

definition linux_args :: session_args where
  "linux_args = \<lparr>arg_platform = ''linux'', arg_arch = ''x86_64'', arg_os_version = ''Linux 6'',
     arg_report_dir = ''reports'', completed_ids = {}, start_time = at_second 0\<rparr>"

definition fresh_state :: "stdin \<Rightarrow> run_state" where
  "fresh_state ins = \<lparr>results = [], infra = new_infrastructure False False None, keys = ins,
     saved = [], ticks = 1\<rparr>"

text \<open>A session resumed with \<open>T1\<close> completed.\<close>

definition resumed_args :: session_args where
  "resumed_args = linux_args\<lparr>completed_ids := {PStr ''T1''}\<rparr>"

definition four_tests :: "test list" where
  "four_tests = [manual_test ''T1'', manual_test ''T2'', manual_test ''T3'', manual_test ''T4'']"

text \<open>The results and the paths of the files written, of a session that returned.\<close>

definition session_results :: "py_exc + (result list \<times> path \<times> files \<times> int) \<Rightarrow> result list" where
  "session_results r = (case r of Inl e \<Rightarrow> [] | Inr (rs, p, fs, c) \<Rightarrow> rs)"

definition session_paths :: "py_exc + (result list \<times> path \<times> files \<times> int) \<Rightarrow> path list" where
  "session_paths r = (case r of Inl e \<Rightarrow> [] | Inr (rs, p, fs, c) \<Rightarrow> map fst fs)"

text \<open>The fields, the status and the id of an entry of \<open>results\<close>, as \<open>load_resume\<close> reads them.\<close>

fun entry_fields :: "pyval \<Rightarrow> (string \<times> pyval) list" where
  "entry_fields (PDict fs) = fs"
| "entry_fields v = []"

definition entry_status :: "pyval \<Rightarrow> pyval" where
  "entry_status e = dict_get (entry_fields e) ''status'' PNone"

definition entry_id :: "pyval \<Rightarrow> pyval option" where
  "entry_id e = map_of (entry_fields e) ''id''"

text \<open>
  The shape of a report document, as \<open>build_report\<close> and the main loop make it: a dict
  whose \<open>results\<close> is a list of dicts, each with a string \<open>id\<close> and a string
  \<open>status\<close>.
\<close>

fun is_str :: "pyval \<Rightarrow> bool" where
  "is_str (PStr s) = True"
| "is_str v = False"

definition result_entry :: "pyval \<Rightarrow> bool" where
  "result_entry e \<longleftrightarrow> is_dict e
     \<and> (case entry_id e of None \<Rightarrow> False | Some i \<Rightarrow> is_str i)
     \<and> is_str (entry_status e)"

definition report_entries :: "pyval \<Rightarrow> pyval list" where
  "report_entries rep =
     (case rep of
        PDict kvs \<Rightarrow> (case map_of kvs ''results'' of Some (PList es) \<Rightarrow> es | _ \<Rightarrow> [])
      | _ \<Rightarrow> [])"

definition report_document :: "pyval \<Rightarrow> bool" where
  "report_document rep \<longleftrightarrow>
     (case rep of
        PDict kvs \<Rightarrow> (case map_of kvs ''results'' of
                        Some (PList es) \<Rightarrow> list_all result_entry es | _ \<Rightarrow> False)
      | _ \<Rightarrow> False)"

text \<open>An entry that \<open>load_resume\<close> can read: a dict whose id, if it has one, is hashable.\<close>

definition readable_entry :: "pyval \<Rightarrow> bool" where
  "readable_entry e \<longleftrightarrow> is_dict e
     \<and> (case entry_id e of Some i \<Rightarrow> py_key i \<noteq> None | None \<Rightarrow> True)"

text \<open>An entry with a completed status and no id.\<close>

definition completed_without_id :: "pyval \<Rightarrow> bool" where
  "completed_without_id e \<longleftrightarrow> entry_status e \<in> completed_statuses \<and> entry_id e = None"

text \<open>A report of two entries, the second without a status.\<close>

definition statusless_report :: pyval where
  "statusless_report = PDict [(''results'', PList [
      PDict [(''id'', PStr ''T1''), (''status'', PStr ''passed'')],
      PDict [(''id'', PStr ''T2'')]])]"

text \<open>A report of a session that was quit at its second test.\<close>

definition quit_report :: pyval where
  "quit_report = PDict [(''version'', PStr ''1''), (''results'', PList [
      PDict [(''id'', PStr ''T1''), (''status'', PStr ''passed'')],
      PDict [(''id'', PStr ''T2''), (''status'', PStr ''not_run'')],
      PDict [(''id'', PStr ''T3''), (''status'', PStr ''failed'')]])]"

definition reading :: "(py_exc + pyval) \<Rightarrow> environment" where
  "reading r = bare_env\<lparr>read_json := (\<lambda>_. r)\<rparr>"

text \<open>
  An entry that \<open>load_resume\<close> can process: a dict that has no completed status, or has
  an id that is hashable.
\<close>

definition processable :: "pyval \<Rightarrow> bool" where
  "processable e \<longleftrightarrow> is_dict e
     \<and> (entry_status e \<in> completed_statuses
          \<longrightarrow> (case entry_id e of None \<Rightarrow> False | Some i \<Rightarrow> py_key i \<noteq> None))"

text \<open>A report whose first entry has no status and whose third has a completed status and no id.\<close>

definition idless_report :: pyval where
  "idless_report = PDict [(''results'', PList [
      PDict [(''id'', PStr ''T0'')],
      PDict [(''id'', PStr ''T1''), (''status'', PStr ''passed'')],
      PDict [(''name'', PStr ''Second''), (''status'', PStr ''failed'')],
      PInt 5])]"

text \<open>
  The \<open>create_connection\<close> values of a list of setup steps, and of a list of tests, in
  the order the loops of \<open>generate_connections\<close> visit them.
\<close>

fun step_conn_defs :: "pyval list \<Rightarrow> pyval list" where
  "step_conn_defs [] = []"
| "step_conn_defs (PDict kvs # steps) =
     (case map_of kvs ''create_connection'' of
        None \<Rightarrow> step_conn_defs steps
      | Some conn_def \<Rightarrow> conn_def # step_conn_defs steps)"
| "step_conn_defs (step # steps) = step_conn_defs steps"

definition declared :: "test list \<Rightarrow> pyval list" where
  "declared tests = concat (map (\<lambda>t. step_conn_defs (setup_steps t)) tests)"

text \<open>The name of a \<open>create_connection\<close> value as a set member, when it has one.\<close>

definition def_key :: "pyval \<Rightarrow> pyval option" where
  "def_key conn_def = (case py_subscript conn_def ''name'' of Inl e \<Rightarrow> None | Inr n \<Rightarrow> py_key n)"

text \<open>
  \<open>c\<close> is the bundle entry of the \<open>create_connection\<close> value \<open>d\<close>: a connection
  with the name, the type and the config of \<open>d\<close>, the config being \<open>{}\<close> when
  \<open>d\<close> has none.
\<close>

definition kept_entry :: "pyval \<Rightarrow> pyval \<Rightarrow> bool" where
  "kept_entry d c \<longleftrightarrow>
     (\<exists>fs name ty. d = PDict fs \<and> map_of fs ''name'' = Some name \<and> map_of fs ''type'' = Some ty
        \<and> c = PDict [(''type'', PStr ''connection''), (''name'', name),
                      (''config'', PDict [(''type'', ty),
                         (''config'', case map_of fs ''config'' of None \<Rightarrow> PDict []
                                      | Some cfg \<Rightarrow> cfg)])])"

text \<open>The name of a bundle entry, as a set member.\<close>

definition conn_key :: "pyval \<Rightarrow> pyval option" where
  "conn_key c = py_key (dict_get (entry_fields c) ''name'' PNone)"

text \<open>What holds of \<open>seen_names\<close> and \<open>connections\<close> after the values \<open>defs\<close>.\<close>

definition conn_inv :: "pyval list \<Rightarrow> pyval list \<Rightarrow> pyval list \<Rightarrow> bool" where
  "conn_inv defs seen conns \<longleftrightarrow>
     distinct seen
     \<and> map conn_key conns = map Some (rev seen)
     \<and> (\<forall>d \<in> set defs. \<exists>k. def_key d = Some k \<and> k \<in> set seen)
     \<and> (\<forall>c \<in> set conns. \<exists>d. find (\<lambda>d. def_key d = conn_key c) defs = Some d \<and> kept_entry d c)"

text \<open>Two tests that declare a connection of the same name with different configs.\<close>

definition conn_test :: "string \<Rightarrow> pyval \<Rightarrow> test" where
  "conn_test i conn_def = \<lparr>tid = i, tname = ''Connect'', category = ''ssh'', platforms = None,
     prerequisites = [], setup_steps = [PStr ''open the sidebar'',
       PDict [(''create_connection'', conn_def)]], verification = None\<rparr>"

definition conn_a_first :: pyval where
  "conn_a_first = PDict [(''name'', PStr ''A''), (''type'', PStr ''ssh''),
                         (''config'', PDict [(''port'', PInt 2201)])]"

definition conn_a_second :: pyval where
  "conn_a_second = PDict [(''name'', PStr ''A''), (''type'', PStr ''ssh''),
                          (''config'', PDict [(''port'', PInt 2202)])]"













text \<open>A test for the given platforms.\<close>

definition platform_test :: "string \<Rightarrow> string list \<Rightarrow> test" where
  "platform_test i ps = \<lparr>tid = i, tname = ''Test '' @ i, category = ''local'',
     platforms = Some ps, prerequisites = [], setup_steps = [], verification = None\<rparr>"

section \<open>Properties of filter_tests\<close>

text \<open>
  C6. With no category and no id filter, \<open>filter_tests\<close> keeps exactly the tests whose
  platform list (\<open>["all"]\<close> when the key is absent) contains \<open>"all"\<close> or the current
  platform, in the order of the input: the output is the input filtered by that test.
\<close>

theorem filter_tests_platform:
  "filter_tests ts plat None None =
     filter (\<lambda>t. ''all'' \<in> set (platforms_of t) \<or> plat \<in> set (platforms_of t)) ts"
  by (induction ts) auto

theorem filter_tests_platform_witness:
  "filter_tests [platform_test ''T1'' [''linux''], platform_test ''T2'' [''macos''],
                 platform_test ''T3'' [''all''], manual_test ''T4''] ''linux'' None None
     = [platform_test ''T1'' [''linux''], platform_test ''T3'' [''all''], manual_test ''T4'']"
  using filter_tests_platform [of "[platform_test ''T1'' [''linux''],
      platform_test ''T2'' [''macos''], platform_test ''T3'' [''all''], manual_test ''T4'']" "''linux''"]
  by (simp add: platforms_of_def platform_test_def manual_test_def)

section \<open>Unknown verification types\<close>

text \<open>
  C10. A verification dict whose \<open>type\<close> is absent, or is a value other than the five
  known tags, gives the empty check list: the same result as \<open>"manual"\<close>, and no error.
\<close>

theorem unknown_type_no_checks:
  assumes "case map_of kvs ''type'' of None \<Rightarrow> True | Some ty \<Rightarrow> ty \<notin> known_types"
  shows "run_verification env (PDict kvs) = Inr []
       \<and> run_verification env (PDict kvs) = run_verification env (PStr ''manual'')"
  using assms
  by (auto simp: run_verification.simps dict_get_def known_types_def Let_def split: option.splits)

theorem unknown_type_no_checks_witness:
  "run_verification bare_env (PDict [(''type'', PStr ''http_check''), (''url'', PStr ''x'')]) = Inr []
   \<and> run_verification bare_env (PDict [(''path'', PStr ''/tmp/x'')]) = Inr []"
  using unknown_type_no_checks [of "[(''type'', PStr ''http_check''), (''url'', PStr ''x'')]" bare_env]
        unknown_type_no_checks [of "[(''path'', PStr ''/tmp/x'')]" bare_env]
  by (simp add: known_types_def)

section \<open>The manual prompt of a combined verification\<close>

lemma combined_spec_checks:
  "run_verification bare_env combined_spec =
     Inr [\<lparr>description = File_default (PStr ''/tmp/out.txt''), passed = True\<rparr>]"
  by (simp add: combined_spec_def run_verification.simps dict_get_def dict_item_def
      os_path_isfile_def describe_def bare_env_def)

lemma combined_spec_shape:
  "is_dict combined_spec" "is_combined combined_spec"
  by (simp_all add: combined_spec_def)

text \<open>
  C3. The claim is that a combined verification always shows its manual prompt after the
  automated confirmation. In \<open>get_test_result\<close> every recognised answer to the automated
  confirmation returns the verdict at once; the manual prompt is reached only after an
  answer that is none of Enter, \<open>p\<close>, \<open>f\<close>, \<open>s\<close>, \<open>q\<close>. Here the operator presses
  Enter twice on a combined test whose one automated check passes: the verdict is
  \<open>passed\<close>, and \<open>Manual_prompt\<close> is not among what was shown.
\<close>

theorem combined_manual_prompt_skipped:
  "get_test_result bare_env combined_test [Line '''', Line ''''] =
     Inr (''passed'', None, [],
          [Prompt_result,
           Show_checks [\<lparr>description = File_default (PStr ''/tmp/out.txt''), passed = True\<rparr>],
           All_checks_passed, Prompt_confirm])"
  by (simp add: get_test_result_def verdict_loop.simps combined_spec_checks combined_test_def
      verification_of_def confirm_block_def py_lower_def py_strip_def combined_spec_shape)

text \<open>
  The manual prompt is shown when the answer to the automated confirmation is none of
  the keys: here \<open>x\<close>, after which Enter at the manual prompt gives the verdict.
\<close>

lemma combined_manual_prompt_after_other_answer:
  "get_test_result bare_env combined_test [Line '''', Line ''x'', Line ''''] =
     Inr (''passed'', None, [],
          [Prompt_result,
           Show_checks [\<lparr>description = File_default (PStr ''/tmp/out.txt''), passed = True\<rparr>],
           All_checks_passed, Prompt_confirm,
           Manual_prompt (PStr ''Does the tab title show the host?''), Prompt_confirm])"
  by (simp add: get_test_result_def verdict_loop.simps combined_spec_checks combined_test_def
      verification_of_def confirm_block_def py_lower_def py_strip_def combined_spec_shape
      lower_char_def is_space_def upper_letters_def lower_letters_def)
     (simp add: combined_spec_def dict_get_def)

section \<open>Starting what is started\<close>

text \<open>
  C9. Starting a subsystem that is started is a no-op. \<open>start_docker\<close> with
  \<open>docker_started\<close> true, or with \<open>skip_infra\<close> set, returns the current value of
  \<open>docker_started\<close>, leaves the state as it is and does nothing outside;
  \<open>start_serial\<close> with a serial bridge process returns \<open>True\<close>, leaves the state
  as it is and spawns nothing.
\<close>

theorem start_twice_is_noop:
  "(docker_started s \<or> skip_infra s \<longrightarrow> start_docker env s = (Inr (docker_started s), s, []))
   \<and> (socat_proc s \<noteq> None \<longrightarrow> start_serial env s = (Inr True, s, []))"
  by (auto simp: start_docker_def start_serial_def)

theorem start_twice_is_noop_witness:
  "start_docker bare_env running_infra = (Inr True, running_infra, [])
   \<and> start_serial bare_env running_infra = (Inr True, running_infra, [])
   \<and> start_docker bare_env (new_infrastructure True False None)
       = (Inr False, new_infrastructure True False None, [])"
  using start_twice_is_noop [of running_infra bare_env]
        start_twice_is_noop [of "new_infrastructure True False None" bare_env]
  by (simp add: running_infra_def new_infrastructure_def)

section \<open>The file a report is saved to\<close>

lemma digit_char_inj:
  assumes "a < 10" "b < 10" "digit_char a = digit_char b"
  shows "a = b"
proof -
  have d: "distinct ''0123456789''" by simp
  have "a mod 10 = a" "b mod 10 = b" using assms by simp_all
  with assms(3) have "''0123456789'' ! a = ''0123456789'' ! b"
    by (simp add: digit_char_def)
  with d assms(1,2) show ?thesis
    by (simp add: nth_eq_iff_index_eq)
qed

lemma digit_char_mod: "digit_char n = digit_char (n mod 10)"
  by (simp add: digit_char_def)

lemma pad2_inj:
  assumes "a < 100" "b < 100" "pad2 a = pad2 b"
  shows "a = b"
proof -
  from assms(3) have h: "digit_char (a div 10) = digit_char (b div 10)"
    and l: "digit_char (a mod 10) = digit_char (b mod 10)"
    using digit_char_mod [of a] digit_char_mod [of b] by (simp_all add: pad2_def)
  from assms(1,2) h have "a div 10 = b div 10" by (intro digit_char_inj) simp_all
  moreover from l have "a mod 10 = b mod 10" by (intro digit_char_inj) simp_all
  ultimately show ?thesis by (metis div_mult_mod_eq)
qed

lemma pad4_inj:
  assumes "a < 10000" "b < 10000" "pad4 a = pad4 b"
  shows "a = b"
proof -
  have "length (pad2 (a div 100)) = length (pad2 (b div 100))"
    by (simp add: pad2_def)
  with assms(3) have "pad2 (a div 100) = pad2 (b div 100)" "pad2 (a mod 100) = pad2 (b mod 100)"
    by (simp_all add: pad4_def)
  moreover from assms(1,2) have "a div 100 < 100" "b div 100 < 100" by simp_all
  ultimately have "a div 100 = b div 100" "a mod 100 = b mod 100"
    by (auto intro: pad2_inj)
  then show ?thesis by (metis div_mult_mod_eq)
qed

lemma strftime_stamp_eq:
  assumes "valid_datetime d" "valid_datetime e"
  shows "strftime_stamp d = strftime_stamp e \<longleftrightarrow> same_second d e"
proof
  assume "same_second d e"
  then show "strftime_stamp d = strftime_stamp e"
    by (simp add: same_second_def strftime_stamp_def)
next
  assume eq: "strftime_stamp d = strftime_stamp e"
  have len: "length (pad4 (year d)) = 4" "length (pad4 (year e)) = 4"
    "\<And>n. length (pad2 n) = 2"
    by (simp_all add: pad4_def pad2_def)
  from eq have "pad4 (year d) = pad4 (year e) \<and> pad2 (month d) = pad2 (month e)
      \<and> pad2 (day d) = pad2 (day e) \<and> pad2 (hour d) = pad2 (hour e)
      \<and> pad2 (minute d) = pad2 (minute e) \<and> pad2 (second d) = pad2 (second e)"
    by (simp add: strftime_stamp_def pad4_def pad2_def)
  with assms show "same_second d e"
    by (auto simp: valid_datetime_def same_second_def dest: pad2_inj pad4_inj)
qed

text \<open>
  C7, as the code has it. \<open>save_report\<close> names the file after the clock reading of the
  call: it writes the report to \<open>manual-<UTC time of the call>-<platform>-<arch>.json\<close>
  in the report directory and leaves every other file as it is. Of two saves one after
  the other, with the same directory, platform and architecture, the second writes to
  the file of the first exactly when their clock readings are in the same second: then
  that file holds the second report and no other file has changed; otherwise the second
  save makes another file, and the file of the first still holds the first report.
\<close>

theorem save_report_filename:
  assumes "save_report env now fs rep dir = Inr (p, fs1)"
    and "save_report env2 now2 fs1 rep2 dir = Inr (p2, fs2)"
    and "env_platform rep2 = env_platform rep" and "env_arch rep2 = env_arch rep"
    and "valid_datetime (utc now)" and "valid_datetime (utc now2)"
  shows "parent_dir p = dir
       \<and> file_name p = ''manual-'' @ strftime_stamp (utc now) @ ''-'' @ env_platform rep @ ''-''
                          @ env_arch rep @ ''.json''
       \<and> map_of fs1 p = Some rep
       \<and> (\<forall>q. q \<noteq> p \<longrightarrow> map_of fs1 q = map_of fs q)
       \<and> (p2 = p \<longleftrightarrow> same_second (utc now2) (utc now))
       \<and> map_of fs2 p2 = Some rep2
       \<and> (\<forall>q. q \<noteq> p2 \<longrightarrow> map_of fs2 q = map_of fs1 q)"
proof -
  from assms(1) have p: "p = \<lparr>parent_dir = dir, file_name = ''manual-'' @ strftime_stamp (utc now)
      @ ''-'' @ env_platform rep @ ''-'' @ env_arch rep @ ''.json''\<rparr>"
    and fs1: "fs1 = (p, rep) # fs"
    by (auto simp: save_report_def report_filename_def Let_def split: option.splits)
  from assms(2,3,4) have p2: "p2 = \<lparr>parent_dir = dir, file_name = ''manual-''
      @ strftime_stamp (utc now2) @ ''-'' @ env_platform rep @ ''-'' @ env_arch rep @ ''.json''\<rparr>"
    and fs2: "fs2 = (p2, rep2) # fs1"
    by (auto simp: save_report_def report_filename_def Let_def split: option.splits)
  have "length (strftime_stamp (utc now2)) = length (strftime_stamp (utc now))"
    by (simp add: strftime_stamp_def pad4_def pad2_def)
  then have "p2 = p \<longleftrightarrow> strftime_stamp (utc now2) = strftime_stamp (utc now)"
    unfolding p p2 by simp
  with assms(5,6) have same: "p2 = p \<longleftrightarrow> same_second (utc now2) (utc now)"
    by (simp add: strftime_stamp_eq)
  from p have "parent_dir p = dir"
    and "file_name p = ''manual-'' @ strftime_stamp (utc now) @ ''-'' @ env_platform rep @ ''-''
                          @ env_arch rep @ ''.json''"
    by simp_all
  moreover from fs1 have "map_of fs1 p = Some rep" "\<forall>q. q \<noteq> p \<longrightarrow> map_of fs1 q = map_of fs q"
    by simp_all
  moreover from fs2 have "map_of fs2 p2 = Some rep2" "\<forall>q. q \<noteq> p2 \<longrightarrow> map_of fs2 q = map_of fs1 q"
    by simp_all
  ultimately show ?thesis using same by blast
qed

lemma linux_report_fields:
  "env_platform linux_report = ''linux''" "env_arch linux_report = ''x86_64''"
  by (simp_all add: linux_report_def build_report_def)

lemma stamp_at_second_7: "strftime_stamp (utc (at_second 7)) = ''2026-11-04T103007''"
  by (simp add: strftime_stamp_def at_second_def pad4_def pad2_def digit_char_def)

lemma stamp_at_second_8: "strftime_stamp (utc (at_second 8)) = ''2026-11-04T103008''"
  by (simp add: strftime_stamp_def at_second_def pad4_def pad2_def digit_char_def)

lemma write_error_bare: "write_error bare_env p = None"
  by (simp add: bare_env_def)

text \<open>
  Two saves in the second 10:30:07: both write to
  \<open>manual-2026-11-04T103007-linux-x86_64.json\<close>, which then holds the second report.
\<close>

theorem save_report_filename_witness:
  "save_report bare_env (at_second 7) [] linux_report ''reports''
     = Inr (\<lparr>parent_dir = ''reports'', file_name = ''manual-2026-11-04T103007-linux-x86_64.json''\<rparr>,
            [(\<lparr>parent_dir = ''reports'',
               file_name = ''manual-2026-11-04T103007-linux-x86_64.json''\<rparr>, linux_report)])
   \<and> map_of (snd (projr (save_report bare_env (at_second 7)
          [(\<lparr>parent_dir = ''reports'',
             file_name = ''manual-2026-11-04T103007-linux-x86_64.json''\<rparr>, linux_report)]
          (linux_report\<lparr>summary_total := 1\<rparr>) ''reports'')))
        \<lparr>parent_dir = ''reports'', file_name = ''manual-2026-11-04T103007-linux-x86_64.json''\<rparr>
     = Some (linux_report\<lparr>summary_total := 1\<rparr>)"
proof -
  let ?f = "\<lparr>parent_dir = ''reports'', file_name = ''manual-2026-11-04T103007-linux-x86_64.json''\<rparr>"
  let ?rep2 = "linux_report\<lparr>summary_total := 1\<rparr>"
  have a: "save_report bare_env (at_second 7) [] linux_report ''reports''
      = Inr (?f, [(?f, linux_report)])"
    by (simp add: save_report_def write_error_bare Let_def report_filename_def
        linux_report_fields stamp_at_second_7)
  obtain p2 fs2 where b: "save_report bare_env (at_second 7) [(?f, linux_report)] ?rep2 ''reports''
      = Inr (p2, fs2)"
    by (simp add: save_report_def write_error_bare Let_def)
  have v: "valid_datetime (utc (at_second 7))"
    by (simp add: valid_datetime_def at_second_def)
  have e: "env_platform ?rep2 = env_platform linux_report" "env_arch ?rep2 = env_arch linux_report"
    by simp_all
  from save_report_filename [OF a b e v v]
  have same: "p2 = ?f \<longleftrightarrow> same_second (utc (at_second 7)) (utc (at_second 7))"
    and held: "map_of fs2 p2 = Some ?rep2"
    by blast+
  from same have "p2 = ?f" by (simp add: same_second_def)
  with held a show ?thesis
    unfolding b by simp
qed

text \<open>Two saves one second apart write two files.\<close>

lemma save_report_filename_changes:
  "fst (projr (save_report bare_env (at_second 7) [] linux_report ''reports''))
     \<noteq> fst (projr (save_report bare_env (at_second 8) [] linux_report ''reports''))"
  by (simp add: save_report_def write_error_bare report_filename_def Let_def
      stamp_at_second_7 stamp_at_second_8)

section \<open>Quitting a session\<close>

lemma confirm_block_status:
  "confirm_block ps fs nt ins out = (Some (status, nt1), ins1, out1) \<Longrightarrow> status \<in> verdict_words"
  by (auto simp: confirm_block_def verdict_words_def split: prod.splits if_splits)

lemma consumed_then_input:
  "get_input ins = (c, ins1) \<Longrightarrow> c \<noteq> ''q'' \<Longrightarrow> get_input ins1 = (c2, ins2)
     \<Longrightarrow> length ins2 < length ins"
  using get_input_consumes [of ins c ins1] get_input_length [of ins1 c2 ins2] by simp

lemma consumed_then_confirm:
  "get_input ins = (c, ins1) \<Longrightarrow> c \<noteq> ''q'' \<Longrightarrow> confirm_block ps fs nt ins1 out = (r, ins2, out2)
     \<Longrightarrow> length ins2 < length ins"
  using get_input_consumes [of ins c ins1] confirm_block_length [of ps fs nt ins1 out r ins2 out2]
  by simp

lemma consumed_then_confirm_twice:
  "get_input ins = (c, ins1) \<Longrightarrow> c \<noteq> ''q'' \<Longrightarrow> confirm_block ps fs nt ins1 out = (r, ins2, out2)
     \<Longrightarrow> confirm_block ps3 fs3 nt3 ins2 out3 = (r3, ins3, out4)
     \<Longrightarrow> length ins3 < length ins"
  using consumed_then_confirm [of ins c ins1 ps fs nt out r ins2 out2]
    confirm_block_length [of ps3 fs3 nt3 ins2 out3 r3 ins3 out4]
  by simp

text \<open>One turn of the loop either returns a verdict word or goes on with less input.\<close>

lemma verdict_loop_turn:
  assumes "verdict_loop env t nt ins out = Inr (status, v)"
  shows "status \<in> verdict_words
       \<or> (\<exists>nt1 ins1 out1. length ins1 < length ins
             \<and> verdict_loop env t nt1 ins1 out1 = Inr (status, v))"
proof (cases "get_input ins")
  case (Pair choice ins1)
  show ?thesis
  proof (cases "choice \<in> {''p'', ''f'', ''s'', ''q''}")
    case True
    with assms Pair show ?thesis
      by (subst (asm) verdict_loop.simps)
         (auto simp: verdict_words_def split: prod.splits)
  next
    case False
    then have nq: "choice \<noteq> ''q''" by simp
    note lens = get_input_consumes [OF Pair nq] consumed_then_input [OF Pair nq]
      consumed_then_confirm [OF Pair nq] consumed_then_confirm_twice [OF Pair nq]
    from assms Pair False show ?thesis
      apply (subst (asm) verdict_loop.simps)
      apply (simp split: prod.splits if_splits sum.splits option.splits)
      apply (auto dest: confirm_block_status intro: lens)
      done
  qed
qed

lemma verdict_loop_status:
  "verdict_loop env t nt ins out = Inr (status, v) \<Longrightarrow> status \<in> verdict_words"
proof (induction "length ins" arbitrary: ins nt out rule: less_induct)
  case less
  from verdict_loop_turn [OF less.prems] less.hyps show ?case by blast
qed

lemma get_test_result_status:
  "get_test_result env t ins = Inr (status, v) \<Longrightarrow> status \<in> verdict_words"
  unfolding get_test_result_def by (rule verdict_loop_status)

lemma mark_remaining_fresh:
  assumes "distinct (map tid ts)" and "set (map tid ts) \<inter> set (map r_id rs) = {}"
  shows "mark_remaining w ts rs n =
           (rs @ map (\<lambda>(t, i). not_run_result t (clock w i)) (zip ts [n..<n + length ts]),
            n + length ts)"
  using assms
proof (induction ts arbitrary: rs n)
  case Nil
  then show ?case by simp
next
  case (Cons t ts)
  let ?r = "not_run_result t (clock w n)"
  from Cons.prems have fresh: "tid t \<notin> set (map r_id rs)" by auto
  from Cons.prems have "distinct (map tid ts)"
    and "set (map tid ts) \<inter> set (map r_id (rs @ [?r])) = {}"
    by (auto simp: not_run_result_def)
  from Cons.IH [OF this] have
    "mark_remaining w ts (rs @ [?r]) (Suc n) =
       ((rs @ [?r]) @ map (\<lambda>(t, i). not_run_result t (clock w i)) (zip ts [Suc n..<Suc n + length ts]),
        Suc n + length ts)" .
  moreover have "[n..<n + length (t # ts)] = n # [Suc n..<Suc n + length ts]"
    by (simp add: upt_rec)
  ultimately show ?case using fresh by simp
qed

lemma remaining_idx_prefix:
  assumes "distinct (map tid filtered)" and "map r_id rs = take k (map tid filtered)"
    and "k \<le> length filtered"
  shows "remaining_idx filtered rs = k"
proof -
  let ?P = "\<lambda>t. tid t \<in> set (map r_id rs)"
  have in_prefix: "\<And>i. i < k \<Longrightarrow> ?P (filtered ! i)"
  proof -
    fix i assume "i < k"
    with assms(3) have "take k (map tid filtered) ! i = tid (filtered ! i)" by simp
    moreover from \<open>i < k\<close> assms(3) have "i < length (take k (map tid filtered))" by simp
    ultimately show "?P (filtered ! i)"
      unfolding assms(2) by (metis nth_mem)
  qed
  have not_next: "k < length filtered \<Longrightarrow> \<not> ?P (filtered ! k)"
  proof
    assume "k < length filtered" and "?P (filtered ! k)"
    then have "tid (filtered ! k) \<in> set (take k (map tid filtered))"
      by (simp add: assms(2))
    then obtain i where "i < k" "map tid filtered ! i = map tid filtered ! k"
      using \<open>k < length filtered\<close> by (auto simp: in_set_conv_nth)
    moreover from \<open>i < k\<close> \<open>k < length filtered\<close> have "i < length (map tid filtered)"
      "k < length (map tid filtered)" by simp_all
    ultimately have "i = k"
      using assms(1) nth_eq_iff_index_eq by blast
    with \<open>i < k\<close> show False by simp
  qed
  have "takeWhile ?P filtered = take k filtered"
    by (rule takeWhile_eq_take_P_nth) (use in_prefix not_next in auto)
  with assms(3) show ?thesis
    unfolding remaining_idx_def by simp
qed

lemma step_ok_Cons:
  assumes "step_ok w a j t ins ins1 (q \<and> new = []) r"
    and "\<forall>i < length new. step_ok w a (Suc j + i) (ts ! i) (ks i) (ks (Suc i))
            (q \<and> Suc i = length new) (new ! i)"
    and "ks 0 = ins1"
  shows "\<forall>i < length (r # new).
           step_ok w a (j + i) ((t # ts) ! i) (case_nat ins ks i) (case_nat ins ks (Suc i))
             (q \<and> Suc i = length (r # new)) ((r # new) ! i)"
proof (intro allI impI)
  fix i assume i: "i < length (r # new)"
  show "step_ok w a (j + i) ((t # ts) ! i) (case_nat ins ks i) (case_nat ins ks (Suc i))
             (q \<and> Suc i = length (r # new)) ((r # new) ! i)"
  proof (cases i)
    case 0
    have "(q \<and> Suc 0 = length (r # new)) = (q \<and> new = [])" by auto
    with assms(1,3) 0 show ?thesis by simp
  next
    case (Suc m)
    with i assms(2) show ?thesis by simp
  qed
qed

lemma run_tests_trace:
  "run_tests w a j ts st = Inr (st1, q) \<Longrightarrow>
   \<exists>new ks. results st1 = results st @ new \<and> length new \<le> length ts
      \<and> (if q then new \<noteq> [] else length new = length ts)
      \<and> ks 0 = keys st
      \<and> (\<forall>i < length new. step_ok w a (j + i) (ts ! i) (ks i) (ks (Suc i))
              (q \<and> Suc i = length new) (new ! i))"
proof (induction ts arbitrary: j st)
  case Nil
  then show ?case by auto
next
  case (Cons t ts)
  show ?case
  proof (cases "PStr (tid t) \<in> completed_ids a")
    case True
    let ?r = "resumed_result t (clock w (ticks st))"
    let ?st = "st\<lparr>results := results st @ [?r], ticks := Suc (ticks st)\<rparr>"
    from Cons.prems True have "run_tests w a (Suc j) ts ?st = Inr (st1, q)" by simp
    from Cons.IH [OF this] obtain new ks where
      new: "results st1 = results ?st @ new" "length new \<le> length ts"
        "if q then new \<noteq> [] else length new = length ts" "ks 0 = keys ?st"
      and each: "\<forall>i < length new. step_ok w a (Suc j + i) (ts ! i) (ks i) (ks (Suc i))
              (q \<and> Suc i = length new) (new ! i)"
      by blast
    from new(3) have nq: "\<not> (q \<and> new = [])" by (auto split: if_splits)
    from True nq have "step_ok w a j t (keys st) (keys st) (q \<and> new = []) ?r"
      by (simp add: step_ok_def resumed_result_def)
    from step_ok_Cons [OF this each] new(4)
    have "\<forall>i < length (?r # new).
           step_ok w a (j + i) ((t # ts) ! i) (case_nat (keys st) ks i)
             (case_nat (keys st) ks (Suc i)) (q \<and> Suc i = length (?r # new)) ((?r # new) ! i)"
      by simp
    moreover from new have "results st1 = results st @ (?r # new)"
      "length (?r # new) \<le> length (t # ts)"
      "if q then ?r # new \<noteq> [] else length (?r # new) = length (t # ts)"
      by (auto split: if_splits)
    moreover have "case_nat (keys st) ks 0 = keys st" by simp
    ultimately show ?thesis by blast
  next
    case False
    from Cons.prems False obtain s1 fx where
      pre: "resolve_prerequisites (machine w j) (prerequisites t) (infra st) = (None, s1, fx)"
      by (auto split: prod.splits option.splits)
    from Cons.prems False pre have card: "print_test_card t = None"
      by (auto simp: Let_def split: option.splits)
    from Cons.prems False pre card obtain status nt keys1 shown where
      v: "get_test_result (machine w j) t (keys st) = Inr (status, nt, keys1, shown)"
      by (auto split: sum.splits)
    let ?stamp = "clock w (ticks st + 1)"
    let ?secs = "whole_seconds (machine w j) (clock w (ticks st)) (clock w (ticks st + 2))"
    show ?thesis
    proof (cases "status = ''quit''")
      case True
      let ?r = "quit_result t ?stamp ?secs nt"
      from True Cons.prems False pre card v have
        st1: "results st1 = results st @ [?r]" and q: "q"
        by (auto simp: Let_def)
      from False True v q have "step_ok w a j t (keys st) keys1 (q \<and> ([] :: result list) = []) ?r"
        by (simp add: step_ok_def quit_result_def)
      from step_ok_Cons [OF this, of ts "\<lambda>_. keys1"]
      have "\<forall>i < length [?r].
           step_ok w a (j + i) ((t # ts) ! i) (case_nat (keys st) (\<lambda>_. keys1) i)
             (case_nat (keys st) (\<lambda>_. keys1) (Suc i)) (q \<and> Suc i = length [?r]) ([?r] ! i)"
        by simp
      moreover have "case_nat (keys st) (\<lambda>_. keys1) 0 = keys st" by simp
      moreover from q have "length [?r] \<le> length (t # ts)"
        "if q then [?r] \<noteq> [] else length [?r] = length (t # ts)" by simp_all
      ultimately show ?thesis using st1 by blast
    next
      case nq: False
      let ?r = "verdict_result t status ?stamp ?secs nt"
      from get_test_result_status [OF v] nq have dw: "status \<in> done_words"
        by (auto simp: verdict_words_def done_words_def)
      from Cons.prems False pre card v nq obtain fs where
        run: "run_tests w a (Suc j) ts
           (st\<lparr>results := results st @ [?r], infra := s1, keys := keys1, saved := fs,
               ticks := ticks st + 5\<rparr>) = Inr (st1, q)"
        by (auto simp: Let_def split: sum.splits)
      from Cons.IH [OF run] obtain new ks where
        new: "results st1 = (results st @ [?r]) @ new" "length new \<le> length ts"
          "if q then new \<noteq> [] else length new = length ts" "ks 0 = keys1"
        and each: "\<forall>i < length new. step_ok w a (Suc j + i) (ts ! i) (ks i) (ks (Suc i))
              (q \<and> Suc i = length new) (new ! i)"
        by auto
      from new(3) have nqe: "\<not> (q \<and> new = [])" by (auto split: if_splits)
      from False v dw nqe have "step_ok w a j t (keys st) keys1 (q \<and> new = []) ?r"
        by (auto simp: step_ok_def verdict_result_def)
      from step_ok_Cons [OF this each new(4)]
      have "\<forall>i < length (?r # new).
           step_ok w a (j + i) ((t # ts) ! i) (case_nat (keys st) ks i)
             (case_nat (keys st) ks (Suc i)) (q \<and> Suc i = length (?r # new)) ((?r # new) ! i)" .
      moreover from new have "results st1 = results st @ (?r # new)"
        "length (?r # new) \<le> length (t # ts)"
        "if q then ?r # new \<noteq> [] else length (?r # new) = length (t # ts)"
        by (auto split: if_splits)
      moreover have "case_nat (keys st) ks 0 = keys st" by simp
      ultimately show ?thesis by blast
    qed
  qed
qed

lemma session_after_quit:
  assumes "distinct (map tid filtered)"
    and run: "run_tests w a 0 filtered st0 = Inr (st, True)"
    and sess: "run_session w a filtered st0 = Inr (rs, path, fs, code)"
    and ids: "map r_id (results st) = take (length (results st)) (map tid filtered)"
    and k: "length (results st) \<le> length filtered"
  shows "rs = results st @ map (\<lambda>(t, i). not_run_result t (clock w i))
                  (zip (drop (length (results st)) filtered)
                     [ticks st..<ticks st + (length filtered - length (results st))])"
proof -
  let ?k = "length (results st)"
  from remaining_idx_prefix [OF assms(1) ids k] have ri: "remaining_idx filtered (results st) = ?k" .
  have d: "distinct (map tid (drop ?k filtered))"
    using assms(1) by (simp add: drop_map [symmetric])
  have "set (take ?k (map tid filtered)) \<inter> set (drop ?k (map tid filtered)) = {}"
    using assms(1) by (rule set_take_disj_set_drop_if_distinct) simp
  then have disj: "set (map tid (drop ?k filtered)) \<inter> set (map r_id (results st)) = {}"
    unfolding ids by (auto simp: drop_map)
  from mark_remaining_fresh [OF d disj, of w "ticks st"]
  have mr: "mark_remaining w (drop ?k filtered) (results st) (ticks st) =
      (results st @ map (\<lambda>(t, i). not_run_result t (clock w i))
          (zip (drop ?k filtered) [ticks st..<ticks st + (length filtered - ?k)]),
       ticks st + (length filtered - ?k))"
    by simp
  from sess run ri mr show ?thesis
    by (auto simp: run_session_def Let_def split: sum.splits)
qed

text \<open>
  C1, for a catalog whose test ids are pairwise different. The operator quits while the
  \<open>k\<close>-th of the filtered tests is being resolved: the loop ends with
  \<open>quit_requested\<close> and \<open>k\<close> results. Then the final results are one per test, in
  catalog order, each with the id, name and category of its test. \<open>ks i\<close> is the
  operator input left when the test at index \<open>i\<close> (counted from 0, so it is test
  \<open>i + 1\<close>) is reached. For a test before the \<open>k\<close>-th that was completed in the
  resumed session the result is the synthesized one (skipped, duration 0, the note of a
  previous session, type \<open>resumed\<close>), and no input is read; for any other test before
  the \<open>k\<close>-th the result has the status and the note that \<open>get_test_result\<close>
  returned for it, a status among passed, failed and skipped. For the \<open>k\<close>-th test
  \<open>get_test_result\<close> returned \<open>quit\<close>, and the result is \<open>not_run\<close> with the note
  returned. For every later test the result is \<open>not_run\<close> with duration 0 and no note.
\<close>

theorem quit_results_in_catalog_order:
  assumes "distinct (map tid filtered)" and "results st0 = []"
    and "run_tests w a 0 filtered st0 = Inr (st, True)"
    and "run_session w a filtered st0 = Inr (rs, path, fs, code)"
  shows "1 \<le> length (results st) \<and> length (results st) \<le> length filtered
       \<and> length rs = length filtered
       \<and> (\<exists>ks. ks 0 = keys st0
            \<and> (\<forall>i < length filtered.
                 r_id (rs ! i) = tid (filtered ! i) \<and> r_name (rs ! i) = tname (filtered ! i)
               \<and> r_category (rs ! i) = category (filtered ! i)
               \<and> (i + 1 < length (results st) \<and> PStr (tid (filtered ! i)) \<in> completed_ids a \<longrightarrow>
                    r_status (rs ! i) = ''skipped'' \<and> r_duration_seconds (rs ! i) = 0
                  \<and> r_note (rs ! i) = Some ''Skipped (completed in previous session)''
                  \<and> r_verification_type (rs ! i) = Type_value (PStr ''resumed'')
                  \<and> ks (i + 1) = ks i)
               \<and> (i + 1 < length (results st) \<and> PStr (tid (filtered ! i)) \<notin> completed_ids a \<longrightarrow>
                    (\<exists>status nt shown.
                        get_test_result (machine w i) (filtered ! i) (ks i)
                          = Inr (status, nt, ks (i + 1), shown)
                      \<and> status \<in> {''passed'', ''failed'', ''skipped''}
                      \<and> r_status (rs ! i) = status \<and> r_note (rs ! i) = nt))
               \<and> (i + 1 = length (results st) \<longrightarrow>
                    (\<exists>nt shown.
                        get_test_result (machine w i) (filtered ! i) (ks i)
                          = Inr (''quit'', nt, ks (i + 1), shown)
                      \<and> r_note (rs ! i) = nt)
                  \<and> r_status (rs ! i) = ''not_run'')
               \<and> (length (results st) < i + 1 \<longrightarrow>
                    r_status (rs ! i) = ''not_run'' \<and> r_duration_seconds (rs ! i) = 0
                  \<and> r_note (rs ! i) = None)))"
proof -
  let ?new = "results st"
  let ?k = "length ?new"
  let ?rest = "map (\<lambda>(t, i). not_run_result t (clock w i))
      (zip (drop ?k filtered) [ticks st..<ticks st + (length filtered - ?k)])"
  from run_tests_trace [OF assms(3)] assms(2) obtain ks where
    ne: "?new \<noteq> []" and k: "?k \<le> length filtered" and ks0: "ks 0 = keys st0"
    and each: "\<forall>i < ?k. step_ok w a i (filtered ! i) (ks i) (ks (Suc i)) (Suc i = ?k) (?new ! i)"
    by auto
  have ids: "map r_id ?new = take ?k (map tid filtered)"
  proof (rule nth_equalityI)
    show "length (map r_id ?new) = length (take ?k (map tid filtered))"
      using k by simp
  next
    fix i assume "i < length (map r_id ?new)"
    with each k show "map r_id ?new ! i = take ?k (map tid filtered) ! i"
      by (simp add: step_ok_def)
  qed
  from session_after_quit [OF assms(1,3,4) ids k] have rs: "rs = ?new @ ?rest" .
  have len_rest: "length ?rest = length filtered - ?k" by simp
  with k have len: "length rs = length filtered"
    unfolding rs by simp
  have early: "rs ! i = ?new ! i" if "i < ?k" for i
    using that unfolding rs by (simp add: nth_append)
  have late: "rs ! i = not_run_result (filtered ! i) (clock w (ticks st + (i - ?k)))"
    if "?k \<le> i" "i < length filtered" for i
  proof -
    from that have "i - ?k < length ?rest" by simp
    moreover from that have "rs ! i = ?rest ! (i - ?k)"
      unfolding rs by (simp add: nth_append)
    ultimately show ?thesis using that by simp
  qed
  have per_index: "r_id (rs ! i) = tid (filtered ! i) \<and> r_name (rs ! i) = tname (filtered ! i)
               \<and> r_category (rs ! i) = category (filtered ! i)
               \<and> (i + 1 < ?k \<and> PStr (tid (filtered ! i)) \<in> completed_ids a \<longrightarrow>
                    r_status (rs ! i) = ''skipped'' \<and> r_duration_seconds (rs ! i) = 0
                  \<and> r_note (rs ! i) = Some ''Skipped (completed in previous session)''
                  \<and> r_verification_type (rs ! i) = Type_value (PStr ''resumed'')
                  \<and> ks (i + 1) = ks i)
               \<and> (i + 1 < ?k \<and> PStr (tid (filtered ! i)) \<notin> completed_ids a \<longrightarrow>
                    (\<exists>status nt shown.
                        get_test_result (machine w i) (filtered ! i) (ks i)
                          = Inr (status, nt, ks (i + 1), shown)
                      \<and> status \<in> {''passed'', ''failed'', ''skipped''}
                      \<and> r_status (rs ! i) = status \<and> r_note (rs ! i) = nt))
               \<and> (i + 1 = ?k \<longrightarrow>
                    (\<exists>nt shown.
                        get_test_result (machine w i) (filtered ! i) (ks i)
                          = Inr (''quit'', nt, ks (i + 1), shown)
                      \<and> r_note (rs ! i) = nt)
                  \<and> r_status (rs ! i) = ''not_run'')
               \<and> (?k < i + 1 \<longrightarrow>
                    r_status (rs ! i) = ''not_run'' \<and> r_duration_seconds (rs ! i) = 0
                  \<and> r_note (rs ! i) = None)" if i: "i < length filtered" for i
  proof (cases "i < ?k")
    case True
    with each have ok: "step_ok w a i (filtered ! i) (ks i) (ks (Suc i)) (Suc i = ?k) (rs ! i)"
      by (simp add: early)
    show ?thesis
    proof (cases "Suc i = ?k")
      case last: True
      with ok True show ?thesis
        by (auto simp: step_ok_def split: if_splits)
    next
      case False
      with True have "i + 1 < ?k" by simp
      with ok False show ?thesis
        by (auto simp: step_ok_def done_words_def split: if_splits)
    qed
  next
    case False
    with i late [of i] show ?thesis
      by (simp add: not_run_result_def)
  qed
  from ne have "1 \<le> ?k" by (simp add: Suc_leI)
  with k len ks0 per_index show ?thesis by blast
qed

lemma manual_verdicts:
  "get_test_result env (manual_test i) (Line ''p'' # ins) = Inr (''passed'', None, ins, [Prompt_result])"
  "get_test_result env (manual_test i) (Line ''q'' # ins) = Inr (''quit'', None, ins, [Prompt_result])"
  "get_test_result env (manual_test i) (Line ''f'' # Line ''broken'' # ins)
     = Inr (''failed'', Some ''broken'', ins, [Prompt_result, Prompt_failure_note])"
  by (simp_all add: get_test_result_def verdict_loop.simps py_lower_def py_strip_def
      lower_char_def is_space_def upper_letters_def lower_letters_def)

lemma manual_test_fields:
  "tid (manual_test i) = i" "prerequisites (manual_test i) = []"
  "print_test_card (manual_test i) = None"
  by (simp_all add: manual_test_def print_test_card_def)

lemma four_tests_quit:
  "\<exists>st. run_tests tick_world resumed_args 0 four_tests
            (fresh_state [Line ''f'', Line ''broken'', Line ''q''])
          = Inr (st, True) \<and> length (results st) = 3"
  by (simp add: four_tests_def fresh_state_def manual_verdicts manual_test_fields
      resumed_args_def linux_args_def tick_world_def save_report_def write_error_bare Let_def)

lemma four_tests_session:
  "\<exists>rs path fs code. run_session tick_world resumed_args four_tests
      (fresh_state [Line ''f'', Line ''broken'', Line ''q'']) = Inr (rs, path, fs, code)"
  by (simp add: run_session_def four_tests_def fresh_state_def manual_verdicts manual_test_fields
      resumed_args_def linux_args_def tick_world_def save_report_def write_error_bare Let_def
      split: prod.splits)

text \<open>
  Four tests, the first completed in the resumed session. The operator fails the second
  with the note \<open>broken\<close> and quits at the third.
\<close>

theorem quit_results_in_catalog_order_witness:
  "distinct (map tid four_tests)
   \<and> map r_id (session_results (run_session tick_world resumed_args four_tests
        (fresh_state [Line ''f'', Line ''broken'', Line ''q''])))
       = [''T1'', ''T2'', ''T3'', ''T4'']
   \<and> map r_status (session_results (run_session tick_world resumed_args four_tests
        (fresh_state [Line ''f'', Line ''broken'', Line ''q''])))
       = [''skipped'', ''failed'', ''not_run'', ''not_run'']
   \<and> map r_note (session_results (run_session tick_world resumed_args four_tests
        (fresh_state [Line ''f'', Line ''broken'', Line ''q''])))
       = [Some ''Skipped (completed in previous session)'', Some ''broken'', None, None]
   \<and> r_duration_seconds (session_results (run_session tick_world resumed_args four_tests
        (fresh_state [Line ''f'', Line ''broken'', Line ''q''])) ! 3) = 0"
proof -
  let ?ins = "[Line ''f'', Line ''broken'', Line ''q'']"
  let ?st0 = "fresh_state ?ins"
  have d: "distinct (map tid four_tests)"
    by (simp add: four_tests_def manual_test_fields)
  have e: "results ?st0 = []" by (simp add: fresh_state_def)
  from four_tests_quit obtain st where
    run: "run_tests tick_world resumed_args 0 four_tests ?st0 = Inr (st, True)"
    and k: "length (results st) = 3" by blast
  from four_tests_session obtain rs path fs code where
    sess: "run_session tick_world resumed_args four_tests ?st0 = Inr (rs, path, fs, code)" by blast
  have n: "length four_tests = 4" by (simp add: four_tests_def)
  have t: "four_tests ! 0 = manual_test ''T1''" "four_tests ! Suc 0 = manual_test ''T2''"
    "four_tests ! 2 = manual_test ''T3''" "four_tests ! 3 = manual_test ''T4''"
    by (simp_all add: four_tests_def)
  have c: "PStr (tid (manual_test ''T1'')) \<in> completed_ids resumed_args"
    "PStr (tid (manual_test ''T2'')) \<notin> completed_ids resumed_args"
    by (simp_all add: resumed_args_def manual_test_fields)
  have m: "machine tick_world i = bare_env" for i
    by (simp add: tick_world_def)
  from quit_results_in_catalog_order [OF d e run sess] obtain ks where
    len: "length rs = 4" and ks0: "ks 0 = ?ins"
    and at: "\<forall>i<4.
        r_id (rs ! i) = tid (four_tests ! i)
      \<and> (i + 1 < 3 \<and> PStr (tid (four_tests ! i)) \<in> completed_ids resumed_args \<longrightarrow>
            r_status (rs ! i) = ''skipped''
          \<and> r_note (rs ! i) = Some ''Skipped (completed in previous session)''
          \<and> ks (i + 1) = ks i)
      \<and> (i + 1 < 3 \<and> PStr (tid (four_tests ! i)) \<notin> completed_ids resumed_args \<longrightarrow>
            (\<exists>status nt shown.
                get_test_result bare_env (four_tests ! i) (ks i) = Inr (status, nt, ks (i + 1), shown)
              \<and> r_status (rs ! i) = status \<and> r_note (rs ! i) = nt))
      \<and> (i + 1 = 3 \<longrightarrow>
            (\<exists>nt shown.
                get_test_result bare_env (four_tests ! i) (ks i) = Inr (''quit'', nt, ks (i + 1), shown)
              \<and> r_note (rs ! i) = nt)
          \<and> r_status (rs ! i) = ''not_run'')
      \<and> (3 < i + 1 \<longrightarrow>
            r_status (rs ! i) = ''not_run'' \<and> r_duration_seconds (rs ! i) = 0
          \<and> r_note (rs ! i) = None)"
    unfolding k n m fresh_state_def by auto
  from at [rule_format, of 0] c(1) ks0
  have r0: "r_id (rs ! 0) = ''T1''" "r_status (rs ! 0) = ''skipped''"
    "r_note (rs ! 0) = Some ''Skipped (completed in previous session)''" and ks1: "ks 1 = ?ins"
    by (simp_all add: t manual_test_fields)
  from at [rule_format, of 1] c(2) ks1
  have r1: "r_id (rs ! 1) = ''T2''" "r_status (rs ! 1) = ''failed''"
    "r_note (rs ! 1) = Some ''broken''" and ks2: "ks 2 = [Line ''q'']"
    by (auto simp: t manual_test_fields manual_verdicts numeral_2_eq_2)
  from at [rule_format, of 2] ks2
  have r2: "r_id (rs ! 2) = ''T3''" "r_status (rs ! 2) = ''not_run''" "r_note (rs ! 2) = None"
    by (auto simp: t manual_test_fields manual_verdicts)
  from at [rule_format, of 3]
  have r3: "r_id (rs ! 3) = ''T4''" "r_status (rs ! 3) = ''not_run''" "r_note (rs ! 3) = None"
    "r_duration_seconds (rs ! 3) = 0"
    by (simp_all add: t manual_test_fields)
  from len obtain a b c d where rs: "rs = [a, b, c, d]"
    by (cases rs; cases "tl rs"; cases "tl (tl rs)"; cases "tl (tl (tl rs))") auto
  from r0 r1 r2 r3 d show ?thesis
    unfolding sess session_results_def rs by simp
qed

text \<open>
  C1, as the claim states it, fails where two tests have the same id: the tests left
  after a quit are marked by id. With the ids \<open>T1, T2, T1\<close> and a quit at the second
  test, the final results are those of the first two tests, and the third test has
  none.
\<close>

theorem quit_with_duplicate_ids:
  "map (\<lambda>r. (r_id r, r_status r)) (session_results (run_session tick_world linux_args
       [manual_test ''T1'', manual_test ''T2'', manual_test ''T1'']
       (fresh_state [Line ''p'', Line ''q''])))
     = [(''T1'', ''passed''), (''T2'', ''not_run'')]"
  by (simp add: session_results_def run_session_def fresh_state_def manual_verdicts
      manual_test_fields linux_args_def tick_world_def save_report_def write_error_bare Let_def
      remaining_idx_def verdict_result_def quit_result_def)

section \<open>The saves of one session\<close>

text \<open>
  C7, as the claim states it, fails: a session of one test saves the report after the test
  and once more at the end, and the two saves, two seconds apart, write two files.
\<close>

theorem session_saves_to_two_files:
  "session_paths (run_session tick_world linux_args [manual_test ''T1''] (fresh_state [Line ''p'']))
     = [\<lparr>parent_dir = ''reports'', file_name = ''manual-2026-11-04T103007-linux-x86_64.json''\<rparr>,
        \<lparr>parent_dir = ''reports'', file_name = ''manual-2026-11-04T103005-linux-x86_64.json''\<rparr>]"
  by (simp add: session_paths_def run_session_def fresh_state_def manual_verdicts
      manual_test_fields linux_args_def tick_world_def save_report_def write_error_bare Let_def
      report_filename_def build_report_def strftime_stamp_def at_second_def pad4_def pad2_def
      digit_char_def)

section \<open>Loading the resume file\<close>

lemma collect_completed_readable:
  assumes "\<forall>e \<in> set es. readable_entry e"
    and "\<forall>e \<in> set es. \<not> completed_without_id e"
  shows "collect_completed es acc =
           Inr (acc \<union> {k. \<exists>e i. e \<in> set es \<and> entry_status e \<in> completed_statuses
                              \<and> entry_id e = Some i \<and> py_key i = Some k})"
  using assms
proof (induction es arbitrary: acc)
  case Nil
  then show ?case by simp
next
  case (Cons e es)
  from Cons.prems obtain fs where e: "e = PDict fs"
    by (cases e) (auto simp: readable_entry_def)
  show ?case
  proof (cases "entry_status e \<in> completed_statuses")
    case False
    with Cons e show ?thesis
      by (auto simp: entry_status_def)
  next
    case True
    with Cons.prems e obtain i k where i: "map_of fs ''id'' = Some i" "py_key i = Some k"
      by (auto simp: readable_entry_def completed_without_id_def entry_id_def)
    from Cons.prems have "collect_completed es (insert k acc) =
        Inr (insert k acc \<union> {k. \<exists>e i. e \<in> set es \<and> entry_status e \<in> completed_statuses
                              \<and> entry_id e = Some i \<and> py_key i = Some k})"
      by (intro Cons.IH) auto
    with True e i show ?thesis
      by (auto simp: entry_status_def entry_id_def dict_item_def)
  qed
qed

lemma result_entry_id:
  "result_entry e \<Longrightarrow> entry_id e = Some i \<Longrightarrow> \<exists>s. i = PStr s"
  by (cases i) (auto simp: result_entry_def)

lemma result_entry_readable:
  "result_entry e \<Longrightarrow> readable_entry e \<and> \<not> completed_without_id e"
  using result_entry_id [of e]
  by (cases "entry_id e") (auto simp: result_entry_def readable_entry_def completed_without_id_def)

lemma load_resume_entries:
  assumes "read_json env path = Inr (PDict kvs)" and "map_of kvs ''results'' = Some (PList es)"
  shows "load_resume env path = collect_completed es {}"
  using assms by (simp add: load_resume_def dict_get_def)

text \<open>
  C2. For a report document, \<open>load_resume\<close> returns exactly the ids of the entries whose
  status is passed, failed or skipped; an id all of whose entries have status
  \<open>not_run\<close> is not in the set.
\<close>

theorem load_resume_exact:
  assumes "read_json env path = Inr rep" and "report_document rep"
  shows "load_resume env path =
           Inr {i. \<exists>e \<in> set (report_entries rep).
                     entry_id e = Some i \<and> entry_status e \<in> completed_statuses}
       \<and> (\<forall>i S. load_resume env path = Inr S
             \<and> (\<forall>e \<in> set (report_entries rep). entry_id e = Some i
                    \<longrightarrow> entry_status e = PStr ''not_run'')
             \<longrightarrow> i \<notin> S)"
proof -
  from assms(2) obtain kvs where rep: "rep = PDict kvs"
    by (cases rep) (auto simp: report_document_def)
  with assms(2) obtain es where es: "map_of kvs ''results'' = Some (PList es)"
    and all: "list_all result_entry es"
    by (cases "map_of kvs ''results''"; cases "the (map_of kvs ''results'')")
       (auto simp: report_document_def)
  have entries: "report_entries rep = es"
    by (simp add: report_entries_def rep es)
  from all have r: "\<forall>e \<in> set es. readable_entry e" "\<forall>e \<in> set es. \<not> completed_without_id e"
    using result_entry_readable by (auto simp: list_all_iff)
  have str: "py_key i = Some k \<longleftrightarrow> k = i" if "e \<in> set es" "entry_id e = Some i" for e i k
  proof -
    from all that have "result_entry e" by (simp add: list_all_iff)
    from result_entry_id [OF this that(2)] obtain s where "i = PStr s" by blast
    then show ?thesis by auto
  qed
  have "load_resume env path = collect_completed es {}"
    using assms(1) es unfolding rep by (rule load_resume_entries)
  also have "\<dots> = Inr ({} \<union> {k. \<exists>e i. e \<in> set es \<and> entry_status e \<in> completed_statuses
                              \<and> entry_id e = Some i \<and> py_key i = Some k})"
    using r by (rule collect_completed_readable)
  also have "{k. \<exists>e i. e \<in> set es \<and> entry_status e \<in> completed_statuses
                              \<and> entry_id e = Some i \<and> py_key i = Some k}
      = {i. \<exists>e \<in> set es. entry_id e = Some i \<and> entry_status e \<in> completed_statuses}"
    using str by auto
  finally have exact: "load_resume env path =
      Inr {i. \<exists>e \<in> set es. entry_id e = Some i \<and> entry_status e \<in> completed_statuses}"
    by simp
  then show ?thesis
    unfolding entries by (auto simp: completed_statuses_def)
qed

lemma quit_report_document: "report_document quit_report"
  by (simp add: report_document_def quit_report_def result_entry_def entry_id_def
      entry_status_def dict_get_def)

theorem load_resume_exact_witness:
  "load_resume (reading (Inr quit_report)) ''old.json'' = Inr {PStr ''T1'', PStr ''T3''}
   \<and> PStr ''T2'' \<notin> {PStr ''T1'', PStr ''T3''}"
proof -
  have r: "read_json (reading (Inr quit_report)) ''old.json'' = Inr quit_report"
    by (simp add: reading_def)
  have "{i. \<exists>e \<in> set (report_entries quit_report).
            entry_id e = Some i \<and> entry_status e \<in> completed_statuses}
        = {PStr ''T1'', PStr ''T3''}"
    by (auto simp: report_entries_def quit_report_def entry_id_def entry_status_def
        dict_get_def completed_statuses_def)
  with load_resume_exact [OF r quit_report_document] show ?thesis by simp
qed

section \<open>A resume file that cannot be loaded\<close>

lemma collect_completed_processable:
  assumes "list_all processable es"
  shows "collect_completed es acc =
           Inr (acc \<union> {k. \<exists>e i. e \<in> set es \<and> entry_status e \<in> completed_statuses
                              \<and> entry_id e = Some i \<and> py_key i = Some k})"
  using assms
proof (induction es arbitrary: acc)
  case Nil
  then show ?case by simp
next
  case (Cons e es)
  from Cons.prems obtain fs where e: "e = PDict fs"
    by (cases e) (auto simp: processable_def)
  from Cons.prems have rest: "list_all processable es" by simp
  show ?case
  proof (cases "entry_status e \<in> completed_statuses")
    case False
    with Cons.IH [OF rest] e show ?thesis
      by (auto simp: entry_status_def)
  next
    case True
    with Cons.prems e obtain i k where i: "map_of fs ''id'' = Some i" "py_key i = Some k"
      by (auto simp: processable_def entry_id_def split: option.splits)
    from Cons.IH [OF rest, of "insert k acc"] True e i show ?thesis
      by (auto simp: entry_status_def entry_id_def dict_item_def)
  qed
qed

lemma collect_completed_first_fault:
  assumes "list_all processable pre" and "completed_without_id e"
  shows "collect_completed (pre @ e # post) acc = Inl KeyError"
  using assms(1)
proof (induction pre arbitrary: acc)
  case Nil
  from assms(2) obtain fs where "e = PDict fs"
    by (cases e) (auto simp: completed_without_id_def entry_status_def completed_statuses_def
        dict_get_def)
  with assms(2) show ?case
    by (simp add: completed_without_id_def entry_status_def entry_id_def dict_item_def)
next
  case (Cons x pre)
  from Cons.prems obtain fs where x: "x = PDict fs"
    by (cases x) (auto simp: processable_def)
  from Cons.prems have rest: "list_all processable pre" by simp
  show ?case
  proof (cases "entry_status x \<in> completed_statuses")
    case False
    with Cons.IH [OF rest] x show ?thesis
      by (simp add: entry_status_def)
  next
    case True
    with Cons.prems x obtain i k where "map_of fs ''id'' = Some i" "py_key i = Some k"
      by (auto simp: processable_def entry_id_def split: option.splits)
    with Cons.IH [OF rest] True x show ?thesis
      by (simp add: entry_status_def dict_item_def)
  qed
qed

lemma load_resume_iter:
  assumes "read_json env path = Inr (PDict kvs)"
    and "py_iter (dict_get kvs ''results'' (PList [])) = Inr es"
  shows "load_resume env path = collect_completed es {}"
  using assms by (simp add: load_resume_def)

text \<open>
  C8, as the claim states it, fails in two ways. A file that cannot be read
  (PermissionError) is not among the exceptions \<open>main\<close> catches: the exception leaves
  \<open>main\<close>. An entry without a status is not a fault for \<open>load_resume\<close>: the entry is
  skipped, no warning is printed, and the id of the other entry is returned.
\<close>

theorem resume_unreadable_or_statusless:
  "resume_step (reading (Inl PermissionError)) (Some ''old.json'') = (Inl PermissionError, [])
   \<and> resume_step (reading (Inr statusless_report)) (Some ''old.json'')
       = (Inr {PStr ''T1''}, [Printed ''Resuming session''])"
  by (simp add: resume_step_def load_resume_def reading_def statusless_report_def dict_get_def
      dict_item_def completed_statuses_def)

text \<open>
  C8, as the code has it. With \<open>--resume\<close> given, \<open>main\<close> prints the warning and goes
  on with the empty set when the file does not exist (FileNotFoundError), when it is
  not valid JSON (JSONDecodeError), and when the document is a dict and among the
  entries of its \<open>results\<close> the first that cannot be processed is a dict with a completed
  status and no id (KeyError): the entries before it are dicts that have no completed
  status or have a hashable id. When every entry is such a dict, nothing is a fault:
  the ids of the entries with a completed status are returned, whatever else the entries
  lack, and no warning is printed.
\<close>

theorem resume_faults_warn:
  assumes "path \<noteq> []"
  shows "(read_json env path = Inl FileNotFoundError \<or> read_json env path = Inl JSONDecodeError
            \<longrightarrow> resume_step env (Some path)
                  = (Inr {}, [Printed ''WARNING: Could not load resume file'']))
       \<and> (read_json env path = Inr (PDict kvs)
            \<and> py_iter (dict_get kvs ''results'' (PList [])) = Inr (pre @ e # post)
            \<and> list_all processable pre \<and> completed_without_id e
            \<longrightarrow> resume_step env (Some path)
                  = (Inr {}, [Printed ''WARNING: Could not load resume file'']))
       \<and> (read_json env path = Inr (PDict kvs)
            \<and> py_iter (dict_get kvs ''results'' (PList [])) = Inr es
            \<and> list_all processable es
            \<longrightarrow> resume_step env (Some path) =
                  (Inr {k. \<exists>e i. e \<in> set es \<and> entry_status e \<in> completed_statuses
                              \<and> entry_id e = Some i \<and> py_key i = Some k},
                   [Printed ''Resuming session'']))"
proof (intro conjI impI)
  assume "read_json env path = Inl FileNotFoundError \<or> read_json env path = Inl JSONDecodeError"
  with assms show "resume_step env (Some path)
      = (Inr {}, [Printed ''WARNING: Could not load resume file''])"
    by (auto simp: resume_step_def load_resume_def)
next
  assume a: "read_json env path = Inr (PDict kvs)
      \<and> py_iter (dict_get kvs ''results'' (PList [])) = Inr (pre @ e # post)
      \<and> list_all processable pre \<and> completed_without_id e"
  then have "load_resume env path = collect_completed (pre @ e # post) {}"
    using load_resume_iter [of env path kvs "pre @ e # post"] by simp
  also from a have "\<dots> = Inl KeyError"
    by (intro collect_completed_first_fault) simp_all
  finally show "resume_step env (Some path)
      = (Inr {}, [Printed ''WARNING: Could not load resume file''])"
    using assms by (simp add: resume_step_def)
next
  assume a: "read_json env path = Inr (PDict kvs)
      \<and> py_iter (dict_get kvs ''results'' (PList [])) = Inr es
      \<and> list_all processable es"
  then have "load_resume env path = collect_completed es {}"
    using load_resume_iter [of env path kvs es] by simp
  also from a have "\<dots> = Inr ({} \<union> {k. \<exists>e i. e \<in> set es \<and> entry_status e \<in> completed_statuses
                              \<and> entry_id e = Some i \<and> py_key i = Some k})"
    by (intro collect_completed_processable) simp
  finally show "resume_step env (Some path) =
      (Inr {k. \<exists>e i. e \<in> set es \<and> entry_status e \<in> completed_statuses
                              \<and> entry_id e = Some i \<and> py_key i = Some k},
       [Printed ''Resuming session''])"
    using assms by (simp add: resume_step_def)
qed

text \<open>
  A missing file, a file that is not JSON, and a report whose entry \<open>Second\<close> has the
  status \<open>failed\<close> and no id (after an entry without status and a passed entry, and
  before an entry that is not a dict) all give the warning and the empty set.
\<close>

theorem resume_faults_warn_witness:
  "resume_step (reading (Inl FileNotFoundError)) (Some ''old.json'')
     = (Inr {}, [Printed ''WARNING: Could not load resume file''])
   \<and> resume_step (reading (Inl JSONDecodeError)) (Some ''old.json'')
     = (Inr {}, [Printed ''WARNING: Could not load resume file''])
   \<and> resume_step (reading (Inr idless_report)) (Some ''old.json'')
     = (Inr {}, [Printed ''WARNING: Could not load resume file''])
   \<and> resume_step (reading (Inr quit_report)) (Some ''old.json'')
     = (Inr {PStr ''T1'', PStr ''T3''}, [Printed ''Resuming session''])"
proof -
  have p: "''old.json'' \<noteq> []" by simp
  have r: "read_json (reading x) ''old.json'' = x" for x
    by (simp add: reading_def)
  let ?pre = "[PDict [(''id'', PStr ''T0'')],
      PDict [(''id'', PStr ''T1''), (''status'', PStr ''passed'')]]"
  let ?e = "PDict [(''name'', PStr ''Second''), (''status'', PStr ''failed'')]"
  let ?kvs = "[(''results'', PList (?pre @ ?e # [PInt 5]))]"
  have i: "idless_report = PDict ?kvs"
    by (simp add: idless_report_def)
  have e: "list_all processable ?pre" "completed_without_id ?e"
    by (simp_all add: processable_def completed_without_id_def entry_id_def entry_status_def
        dict_get_def completed_statuses_def)
  let ?es = "[PDict [(''id'', PStr ''T1''), (''status'', PStr ''passed'')],
      PDict [(''id'', PStr ''T2''), (''status'', PStr ''not_run'')],
      PDict [(''id'', PStr ''T3''), (''status'', PStr ''failed'')]]"
  let ?qkvs = "[(''version'', PStr ''1''), (''results'', PList ?es)]"
  have q: "quit_report = PDict ?qkvs"
    by (simp add: quit_report_def)
  have qe: "list_all processable ?es"
    by (simp add: processable_def entry_id_def entry_status_def dict_get_def completed_statuses_def)
  have ids: "{k. \<exists>e i. e \<in> set ?es \<and> entry_status e \<in> completed_statuses
                              \<and> entry_id e = Some i \<and> py_key i = Some k}
      = {PStr ''T1'', PStr ''T3''}"
    by (auto simp: entry_id_def entry_status_def dict_get_def completed_statuses_def)
  from resume_faults_warn [OF p, of "reading (Inl FileNotFoundError)"]
  have 1: "resume_step (reading (Inl FileNotFoundError)) (Some ''old.json'')
      = (Inr {}, [Printed ''WARNING: Could not load resume file''])"
    by (simp add: r)
  from resume_faults_warn [OF p, of "reading (Inl JSONDecodeError)"]
  have 2: "resume_step (reading (Inl JSONDecodeError)) (Some ''old.json'')
      = (Inr {}, [Printed ''WARNING: Could not load resume file''])"
    by (simp add: r)
  from resume_faults_warn [OF p, of "reading (Inr idless_report)" ?kvs ?pre ?e "[PInt 5]"] e
  have 3: "resume_step (reading (Inr idless_report)) (Some ''old.json'')
      = (Inr {}, [Printed ''WARNING: Could not load resume file''])"
    by (simp add: r i dict_get_def)
  from resume_faults_warn [OF p, of "reading (Inr quit_report)" ?qkvs _ _ _ ?es] qe
  have 4: "resume_step (reading (Inr quit_report)) (Some ''old.json'')
      = (Inr {PStr ''T1'', PStr ''T3''}, [Printed ''Resuming session''])"
    unfolding ids by (simp add: r q dict_get_def)
  from 1 2 3 4 show ?thesis by simp
qed

text \<open>
  A report that is valid JSON of another shape raises what \<open>main\<close> does not catch: a
  list at the top level has no \<open>get\<close>, and neither has an entry that is not a dict.
\<close>

lemma resume_other_shapes:
  "resume_step (reading (Inr (PList []))) (Some ''old.json'') = (Inl AttributeError, [])"
  "resume_step (reading (Inr (PDict [(''results'',
       PList [PInt 5, PDict [(''status'', PStr ''failed'')]])]))) (Some ''old.json'')
     = (Inl AttributeError, [])"
  by (simp_all add: resume_step_def load_resume_def reading_def dict_get_def)

section \<open>One connection per name\<close>

lemma conn_key_entry [simp]: "conn_key (connection_entry name ty cfg) = py_key name"
  by (simp add: conn_key_def connection_entry_def dict_get_def)

lemma find_kept:
  "find P xs = Some x \<Longrightarrow> find P (xs @ ys) = Some x"
  by (induction xs) (auto split: if_splits)

lemma find_fresh:
  "\<forall>x \<in> set xs. \<not> P x \<Longrightarrow> P y \<Longrightarrow> find P (xs @ [y]) = Some y"
  by (induction xs) auto

lemma conn_inv_seen:
  assumes "conn_inv defs seen conns" and "def_key d = Some k" and "k \<in> set seen"
  shows "conn_inv (defs @ [d]) seen conns"
proof -
  have "\<exists>x. find (\<lambda>d. def_key d = conn_key c) (defs @ [d]) = Some x \<and> kept_entry x c"
    if "c \<in> set conns" for c
  proof -
    from assms(1) that obtain x where
      "find (\<lambda>d. def_key d = conn_key c) defs = Some x" "kept_entry x c"
      by (auto simp: conn_inv_def)
    then show ?thesis using find_kept by fastforce
  qed
  with assms show ?thesis by (auto simp: conn_inv_def)
qed

lemma kept_entry_new:
  assumes "py_subscript d ''name'' = Inr name" and "py_subscript d ''type'' = Inr ty"
  shows "kept_entry d (connection_entry name ty (config_of d))"
proof -
  from assms obtain fs where "d = PDict fs" by (cases d) auto
  with assms show ?thesis
    by (auto simp: kept_entry_def connection_entry_def dict_item_def dict_get_def
        split: option.splits)
qed

lemma conn_inv_new:
  assumes inv: "conn_inv defs seen conns"
    and d: "py_subscript d ''name'' = Inr name" "py_key name = Some k"
      "py_subscript d ''type'' = Inr ty"
    and fresh: "k \<notin> set seen"
  shows "conn_inv (defs @ [d]) (k # seen) (conns @ [connection_entry name ty (config_of d)])"
proof -
  from d have key: "def_key d = Some k"
    by (simp add: def_key_def)
  note entry = kept_entry_new [OF d(1) d(3)]
  from inv fresh have none: "\<forall>x \<in> set defs. \<not> def_key x = Some k"
    by (auto simp: conn_inv_def)
  have new: "find (\<lambda>x. def_key x = Some k) (defs @ [d]) = Some d"
    using none key by (rule find_fresh)
  have old: "\<exists>x. find (\<lambda>d. def_key d = conn_key c) (defs @ [d]) = Some x \<and> kept_entry x c"
    if "c \<in> set conns" for c
  proof -
    from inv that obtain x where
      "find (\<lambda>d. def_key d = conn_key c) defs = Some x" "kept_entry x c"
      by (auto simp: conn_inv_def)
    then show ?thesis using find_kept by fastforce
  qed
  from inv fresh have "distinct (k # seen)"
    and "map conn_key (conns @ [connection_entry name ty (config_of d)]) = map Some (rev (k # seen))"
    using d(2) by (simp_all add: conn_inv_def)
  moreover from inv key have "\<forall>x \<in> set (defs @ [d]). \<exists>j. def_key x = Some j \<and> j \<in> set (k # seen)"
    by (auto simp: conn_inv_def)
  moreover have "\<forall>c \<in> set (conns @ [connection_entry name ty (config_of d)]).
      \<exists>x. find (\<lambda>d. def_key d = conn_key c) (defs @ [d]) = Some x \<and> kept_entry x c"
    using old new entry d(2) by auto
  ultimately show ?thesis unfolding conn_inv_def by blast
qed

lemma scan_steps_inv:
  "scan_steps steps (seen, conns) = Inr (seen1, conns1) \<Longrightarrow> conn_inv defs seen conns
     \<Longrightarrow> conn_inv (defs @ step_conn_defs steps) seen1 conns1"
proof (induction steps arbitrary: seen conns defs)
  case Nil
  then show ?case by simp
next
  case (Cons step steps)
  show ?case
  proof (cases "\<exists>kvs d. step = PDict kvs \<and> map_of kvs ''create_connection'' = Some d")
    case False
    then have "scan_steps (step # steps) (seen, conns) = scan_steps steps (seen, conns)"
      and "step_conn_defs (step # steps) = step_conn_defs steps"
      by (cases step; cases "map_of (entry_fields step) ''create_connection''"; simp)+
    with Cons show ?thesis by simp
  next
    case True
    then obtain kvs d where step: "step = PDict kvs" "map_of kvs ''create_connection'' = Some d"
      by blast
    from Cons.prems(1) step obtain name k where
      nm: "py_subscript d ''name'' = Inr name" "py_key name = Some k"
      by (auto split: sum.splits option.splits)
    have defs: "defs @ step_conn_defs (step # steps) = (defs @ [d]) @ step_conn_defs steps"
      using step by simp
    show ?thesis
    proof (cases "k \<in> set seen")
      case True
      with Cons.prems(1) step nm have "scan_steps steps (seen, conns) = Inr (seen1, conns1)"
        by simp
      moreover from Cons.prems(2) nm True have "conn_inv (defs @ [d]) seen conns"
        by (intro conn_inv_seen) (auto simp: def_key_def)
      ultimately show ?thesis unfolding defs by (rule Cons.IH)
    next
      case False
      with Cons.prems(1) step nm obtain ty where ty: "py_subscript d ''type'' = Inr ty"
        and run: "scan_steps steps (k # seen, conns @ [connection_entry name ty (config_of d)])
              = Inr (seen1, conns1)"
        by (auto split: sum.splits)
      from Cons.prems(2) nm ty False
      have "conn_inv (defs @ [d]) (k # seen) (conns @ [connection_entry name ty (config_of d)])"
        by (intro conn_inv_new)
      with run show ?thesis unfolding defs by (rule Cons.IH)
    qed
  qed
qed

lemma scan_tests_inv:
  "scan_tests tests (seen, conns) = Inr (seen1, conns1) \<Longrightarrow> conn_inv defs seen conns
     \<Longrightarrow> conn_inv (defs @ declared tests) seen1 conns1"
proof (induction tests arbitrary: seen conns defs)
  case Nil
  then show ?case by (simp add: declared_def)
next
  case (Cons t ts)
  from Cons.prems(1) obtain seen2 conns2 where
    steps: "scan_steps (setup_steps t) (seen, conns) = Inr (seen2, conns2)"
    and rest: "scan_tests ts (seen2, conns2) = Inr (seen1, conns1)"
    by (auto split: sum.splits)
  from scan_steps_inv [OF steps Cons.prems(2)]
  have "conn_inv (defs @ step_conn_defs (setup_steps t)) seen2 conns2" .
  from Cons.IH [OF rest this] show ?case by (simp add: declared_def)
qed

text \<open>
  C5. When \<open>generate_connections\<close> returns, it has written one file,
  \<open>connections.json\<close> in the directory it returns: the bundle, whose \<open>children\<close> is
  the folder \<open>Manual Test Connections\<close> holding the connections (no folder when there
  is none). No two connections of the bundle have the same name. Each connection is
  \<open>{type: connection, name, config: {type, config}}\<close> with the name, the type and the
  config (\<open>{}\<close> when absent) of the first \<open>create_connection\<close> value of that name in
  iteration order over the tests and their setup steps. Every declared name has its
  connection.
\<close>

theorem generate_connections_first_wins:
  assumes "generate_connections env tests s = (Inr dir, s1, fx)"
  shows "\<exists>conns.
         fx = [Write_file \<lparr>parent_dir = dir, file_name = ''connections.json''\<rparr>
                 (PDict [(''version'', PStr ''2''),
                         (''children'',
                            if conns = [] then PList []
                            else PList [PDict [(''type'', PStr ''folder''),
                                               (''name'', PStr ''Manual Test Connections''),
                                               (''isExpanded'', PBool True),
                                               (''children'', PList conns)]]),
                         (''agents'', PList [])])]
       \<and> distinct (map conn_key conns)
       \<and> (\<forall>c \<in> set conns. \<exists>d fs name ty.
              find (\<lambda>d. def_key d = conn_key c) (declared tests) = Some d
            \<and> d = PDict fs \<and> map_of fs ''name'' = Some name \<and> map_of fs ''type'' = Some ty
            \<and> conn_key c = py_key name
            \<and> c = PDict [(''type'', PStr ''connection''), (''name'', name),
                          (''config'', PDict [(''type'', ty),
                             (''config'', case map_of fs ''config'' of None \<Rightarrow> PDict []
                                          | Some cfg \<Rightarrow> cfg)])])
       \<and> (\<forall>d \<in> set (declared tests). \<exists>c \<in> set conns. conn_key c = def_key d)"
proof -
  from assms obtain seen conns where
    scan: "scan_tests tests ([], []) = Inr (seen, conns)"
    and fx: "fx = [Write_file \<lparr>parent_dir = dir, file_name = ''connections.json''\<rparr>
                    (connection_store conns)]"
    by (auto simp: generate_connections_def Let_def split: sum.splits option.splits)
  have "conn_inv [] [] []" by (simp add: conn_inv_def)
  from scan_tests_inv [OF scan this] have inv: "conn_inv (declared tests) seen conns" by simp
  then have keys: "map conn_key conns = map Some (rev seen)" and "distinct seen"
    by (simp_all add: conn_inv_def)
  then have d: "distinct (map conn_key conns)"
    by (simp add: distinct_map)
  have cover: "\<exists>c \<in> set conns. conn_key c = def_key x" if "x \<in> set (declared tests)" for x
  proof -
    from inv that obtain k where "def_key x = Some k" "k \<in> set seen"
      by (auto simp: conn_inv_def)
    then have "def_key x \<in> set (map conn_key conns)" unfolding keys by simp
    then show ?thesis by auto
  qed
  have first: "\<exists>d fs name ty.
              find (\<lambda>d. def_key d = conn_key c) (declared tests) = Some d
            \<and> d = PDict fs \<and> map_of fs ''name'' = Some name \<and> map_of fs ''type'' = Some ty
            \<and> conn_key c = py_key name
            \<and> c = PDict [(''type'', PStr ''connection''), (''name'', name),
                          (''config'', PDict [(''type'', ty),
                             (''config'', case map_of fs ''config'' of None \<Rightarrow> PDict []
                                          | Some cfg \<Rightarrow> cfg)])]"
    if "c \<in> set conns" for c
  proof -
    from inv that obtain x where x: "find (\<lambda>d. def_key d = conn_key c) (declared tests) = Some x"
      and "kept_entry x c"
      by (auto simp: conn_inv_def)
    then obtain fs name ty where k: "x = PDict fs" "map_of fs ''name'' = Some name"
      "map_of fs ''type'' = Some ty"
      "c = PDict [(''type'', PStr ''connection''), (''name'', name),
                  (''config'', PDict [(''type'', ty),
                     (''config'', case map_of fs ''config'' of None \<Rightarrow> PDict []
                                  | Some cfg \<Rightarrow> cfg)])]"
      unfolding kept_entry_def by blast
    from k(4) have "conn_key c = py_key name"
      by (simp add: conn_key_def dict_get_def)
    with x k show ?thesis by blast
  qed
  have doc: "connection_store conns =
      PDict [(''version'', PStr ''2''),
             (''children'',
                if conns = [] then PList []
                else PList [PDict [(''type'', PStr ''folder''),
                                   (''name'', PStr ''Manual Test Connections''),
                                   (''isExpanded'', PBool True),
                                   (''children'', PList conns)]]),
             (''agents'', PList [])]"
    by (simp add: connection_store_def)
  from fx d cover first show ?thesis
    unfolding doc by blast
qed

text \<open>
  Two tests declare a connection \<open>A\<close> of type \<open>ssh\<close>, the first with port 2201 and the
  second with port 2202: the bundle has one connection \<open>A\<close>, with port 2201.
\<close>

theorem generate_connections_first_wins_witness:
  "generate_connections bare_env [conn_test ''T1'' conn_a_first, conn_test ''T2'' conn_a_second]
      (new_infrastructure False False None)
     = (Inr ''/tmp/termihub-manual-test-0'',
        (new_infrastructure False False None)\<lparr>config_dir := Some ''/tmp/termihub-manual-test-0''\<rparr>,
        [Write_file \<lparr>parent_dir = ''/tmp/termihub-manual-test-0'', file_name = ''connections.json''\<rparr>
           (PDict [(''version'', PStr ''2''),
                   (''children'',
                      PList [PDict [(''type'', PStr ''folder''),
                                    (''name'', PStr ''Manual Test Connections''),
                                    (''isExpanded'', PBool True),
                                    (''children'',
                                       PList [PDict [(''type'', PStr ''connection''),
                                                     (''name'', PStr ''A''),
                                                     (''config'',
                                                        PDict [(''type'', PStr ''ssh''),
                                                               (''config'',
                                                                  PDict [(''port'', PInt 2201)])])]])]]),
                   (''agents'', PList [])])])
   \<and> declared [conn_test ''T1'' conn_a_first, conn_test ''T2'' conn_a_second]
     = [PDict [(''name'', PStr ''A''), (''type'', PStr ''ssh''),
               (''config'', PDict [(''port'', PInt 2201)])],
        PDict [(''name'', PStr ''A''), (''type'', PStr ''ssh''),
               (''config'', PDict [(''port'', PInt 2202)])]]"
proof -
  let ?tests = "[conn_test ''T1'' conn_a_first, conn_test ''T2'' conn_a_second]"
  let ?s = "new_infrastructure False False None"
  obtain s1 fx where run: "generate_connections bare_env ?tests ?s
      = (Inr ''/tmp/termihub-manual-test-0'', s1, fx)"
    and s1: "s1 = ?s\<lparr>config_dir := Some ''/tmp/termihub-manual-test-0''\<rparr>"
    by (simp add: generate_connections_def conn_test_def conn_a_first_def conn_a_second_def
        dict_item_def dict_get_def bare_env_def Let_def)
  have decl: "declared ?tests = [conn_a_first, conn_a_second]"
    by (simp add: declared_def conn_test_def)
  have first: "find (\<lambda>d. def_key d = k) [conn_a_first, conn_a_second] = Some d \<Longrightarrow> d = conn_a_first"
    for k d
    by (auto simp: def_key_def conn_a_first_def conn_a_second_def dict_item_def split: if_splits)
  from generate_connections_first_wins [OF run] obtain conns where
    fx: "fx = [Write_file \<lparr>parent_dir = ''/tmp/termihub-manual-test-0'', file_name = ''connections.json''\<rparr>
                 (PDict [(''version'', PStr ''2''),
                         (''children'',
                            if conns = [] then PList []
                            else PList [PDict [(''type'', PStr ''folder''),
                                               (''name'', PStr ''Manual Test Connections''),
                                               (''isExpanded'', PBool True),
                                               (''children'', PList conns)]]),
                         (''agents'', PList [])])]"
    and dist: "distinct (map conn_key conns)"
    and each: "\<forall>c \<in> set conns. \<exists>d fs name ty.
              find (\<lambda>d. def_key d = conn_key c) (declared ?tests) = Some d
            \<and> d = PDict fs \<and> map_of fs ''name'' = Some name \<and> map_of fs ''type'' = Some ty
            \<and> conn_key c = py_key name
            \<and> c = PDict [(''type'', PStr ''connection''), (''name'', name),
                          (''config'', PDict [(''type'', ty),
                             (''config'', case map_of fs ''config'' of None \<Rightarrow> PDict []
                                          | Some cfg \<Rightarrow> cfg)])]"
    and cover: "\<forall>d \<in> set (declared ?tests). \<exists>c \<in> set conns. conn_key c = def_key d"
    by blast
  let ?a = "PDict [(''type'', PStr ''connection''), (''name'', PStr ''A''),
                   (''config'', PDict [(''type'', PStr ''ssh''),
                                       (''config'', PDict [(''port'', PInt 2201)])])]"
  have all_a: "c = ?a" if "c \<in> set conns" for c
  proof -
    from each that obtain d fs name ty where
      f: "find (\<lambda>d. def_key d = conn_key c) (declared ?tests) = Some d"
      and d: "d = PDict fs" "map_of fs ''name'' = Some name" "map_of fs ''type'' = Some ty"
      and k: "conn_key c = py_key name"
      and c: "c = PDict [(''type'', PStr ''connection''), (''name'', name),
                          (''config'', PDict [(''type'', ty),
                             (''config'', case map_of fs ''config'' of None \<Rightarrow> PDict []
                                          | Some cfg \<Rightarrow> cfg)])]"
      by blast
    from f have "d = conn_a_first" unfolding decl by (rule first)
    with d c show ?thesis by (auto simp: conn_a_first_def)
  qed
  from cover obtain c where "c \<in> set conns" unfolding decl by auto
  with all_a have "?a \<in> set conns" by auto
  moreover from all_a have "set conns \<subseteq> {?a}" by auto
  moreover from dist have "distinct conns" by (simp add: distinct_map)
  ultimately have "conns = [?a]"
  proof (cases conns)
    case Nil
    with \<open>?a \<in> set conns\<close> show ?thesis by simp
  next
    case (Cons x xs)
    with all_a have x: "x = ?a" by simp
    have "xs = []"
    proof (cases xs)
      case Nil
      then show ?thesis .
    next
      case (Cons y ys)
      with \<open>conns = x # xs\<close> all_a have "y = ?a" by simp
      with x Cons \<open>conns = x # xs\<close> \<open>distinct conns\<close> show ?thesis by simp
    qed
    with Cons x show ?thesis by simp
  qed
  with run s1 fx decl show ?thesis
    by (simp add: conn_a_first_def conn_a_second_def)
qed

section \<open>Faults of the verification engine\<close>




























end
